theory Spec2Isabelle
  imports Complex_Main
begin

section \<open>JavaScript values and strings\<close>

text \<open>
  The server (\<^verbatim>\<open>server.js\<close>) receives JSON from its clients and from the extraction
  provider. A JSON value is modelled by \<open>jsval\<close>; an object is the list of its
  properties, looked up from the front. Strings are lists of code units below 256.
\<close>

datatype jsval =
    JUndefined
  | JNull
  | JBool bool
  | JNum real
  | JStr string
  | JArr "jsval list"
  | JObj "(string \<times> jsval) list"

text \<open>JavaScript truthiness, as used by \<^verbatim>\<open>!url\<close>, \<^verbatim>\<open>quality || '192'\<close> and
  \<^verbatim>\<open>info.title\<close> in a condition.\<close>

fun truthy :: "jsval \<Rightarrow> bool" where
  "truthy JUndefined = False"
| "truthy JNull = False"
| "truthy (JBool b) = b"
| "truthy (JNum x) = (x \<noteq> 0)"
| "truthy (JStr s) = (s \<noteq> [])"
| "truthy (JArr xs) = True"
| "truthy (JObj kvs) = True"

text \<open>\<^verbatim>\<open>String.prototype.includes\<close>: does \<open>m\<close> occur in \<open>s\<close> as a contiguous run.\<close>

fun starts_with :: "string \<Rightarrow> string \<Rightarrow> bool" where
  "starts_with s [] = True"
| "starts_with [] (c # m) = False"
| "starts_with (x # s) (c # m) = (x = c \<and> starts_with s m)"

fun str_includes :: "string \<Rightarrow> string \<Rightarrow> bool" where
  "str_includes [] m = (m = [])"
| "str_includes (x # s) m = (starts_with (x # s) m \<or> str_includes s m)"

text \<open>
  \<^verbatim>\<open>url.includes(m)\<close> on a value of the request body. A string has
  \<^verbatim>\<open>String.prototype.includes\<close>, an array \<^verbatim>\<open>Array.prototype.includes\<close> (is some element the
  string \<open>m\<close>); on every other value \<^verbatim>\<open>url.includes\<close> is not a function and the call
  raises a TypeError, whose message is the \<open>Inl\<close> result.
\<close>

fun js_includes :: "jsval \<Rightarrow> string \<Rightarrow> string + bool" where
  "js_includes (JStr s) m = Inr (str_includes s m)"
| "js_includes (JArr xs) m = Inr (JStr m \<in> set xs)"
| "js_includes v m = Inl ''url.includes is not a function''"

text \<open>\<^verbatim>\<open>Number.prototype.toString\<close> on an integer (\<^verbatim>\<open>Date.now()\<close> is an integer of at most
  16 digits, always printed in plain decimal).\<close>

definition digit_char :: "nat \<Rightarrow> char" where
  "digit_char d = ''0123456789'' ! d"

fun digits :: "nat \<Rightarrow> string" where
  "digits n = (if n < 10 then [digit_char n] else digits (n div 10) @ [digit_char (n mod 10)])"

declare digits.simps [simp del]

definition toString :: "int \<Rightarrow> string" where
  "toString n = (if n < 0 then CHR ''-'' # digits (nat (- n)) else digits (nat n))"

text \<open>
  The character classes of the regular expression \<^verbatim>\<open>/[^\w\s]/gi\<close>: \<^verbatim>\<open>\w\<close> is
  \<^verbatim>\<open>[A-Za-z0-9_]\<close>, \<^verbatim>\<open>\s\<close> on code units below 256 is TAB, LF, VT, FF, CR, SPACE and the
  no-break space. The \<^verbatim>\<open>i\<close> flag changes nothing: both classes are closed under case.
\<close>

definition is_alnum :: "char \<Rightarrow> bool" where
  "is_alnum c = (let n = (of_char c :: nat) in
     (65 \<le> n \<and> n \<le> 90) \<or> (97 \<le> n \<and> n \<le> 122) \<or> (48 \<le> n \<and> n \<le> 57))"

definition is_word :: "char \<Rightarrow> bool" where
  "is_word c = (is_alnum c \<or> c = CHR ''_'')"

definition is_space :: "char \<Rightarrow> bool" where
  "is_space c = (let n = (of_char c :: nat) in (9 \<le> n \<and> n \<le> 13) \<or> n = 32 \<or> n = 160)"

text \<open>\<^verbatim>\<open>info.title.replace(/[^\w\s]/gi, '')\<close>: every match of the negated class is removed.\<close>

definition cleanTitle :: "string \<Rightarrow> string" where
  "cleanTitle t = filter (\<lambda>c. is_word c \<or> is_space c) t"

text \<open>
  \<^verbatim>\<open>path.parse(file).name\<close> of Node's \<^verbatim>\<open>path\<close> module on a directory entry (no
  separator in it): the entry without its extension. The extension starts at the last
  dot; there is none when the entry has no dot, when its only dot is the first
  character, or when the entry is \<^verbatim>\<open>..\<close>.
\<close>

definition parse_name :: "string \<Rightarrow> string" where
  "parse_name file =
     (let ext = takeWhile (\<lambda>c. c \<noteq> CHR ''.'') (rev file) in
      if length ext = length file then file
      else let startDot = length file - length ext - 1 in
        if startDot = 0 \<or> file = ''..'' then file else take startDot file)"

section \<open>Data model\<close>

datatype status = Processing | Completed | Error

text \<open>The job object stored in the \<^verbatim>\<open>jobs\<close> map. \<open>error\<close> and \<open>progressIntervalId\<close>
  are absent (\<open>None\<close>) until assigned; \<^verbatim>\<open>delete job.progressIntervalId\<close> makes the latter
  absent again. The handle returned by \<^verbatim>\<open>setInterval\<close> is the address of the job object
  the interval belongs to.\<close>

record job =
  id_job :: string
  status :: status
  title :: string
  quality :: jsval
  progress :: int
  error :: "string option"
  progressIntervalId :: "nat option"

datatype phase = AwaitInfo | AwaitAudio | Settled

text \<open>
  One accepted request allocates one job object, one closure of \<^verbatim>\<open>simulateProgress\<close>
  (its local variable \<^verbatim>\<open>progress\<close>, here \<open>sim_progress\<close>, and its interval timer) and one
  promise chain of \<^verbatim>\<open>processConversion\<close>. They share the job object by reference, so
  they are kept together at one address of the heap; \<open>phase\<close> is the promise the chain
  is waiting for.
\<close>

record conversion =
  job :: job
  sim_progress :: real
  interval_on :: bool
  phase :: phase

text \<open>An entry of the \<^verbatim>\<open>downloads\<close> directory: its modification time in milliseconds and
  whether \<^verbatim>\<open>fs.unlinkSync\<close> succeeds on it (it raises on a directory or without
  permission).\<close>

record dirent =
  mtimeMs :: real
  unlinkable :: bool

datatype response =
    Json nat jsval
  | Download string string

record server =
  jobs :: "string \<rightharpoonup> nat"
  heap :: "conversion list"
  downloads :: "string \<rightharpoonup> dirent"
  transfers :: "string list"
  timeouts :: "(nat \<times> string) list"
  console :: "string list"

definition init :: server where
  "init = \<lparr>jobs = Map.empty, heap = [], downloads = Map.empty, transfers = [],
            timeouts = [], console = []\<rparr>"

section \<open>Operations\<close>

text \<open>Assignment to the object at address \<open>a\<close>, and \<^verbatim>\<open>clearInterval\<close> (which ignores
  an absent handle).\<close>

definition modify :: "nat \<Rightarrow> (conversion \<Rightarrow> conversion) \<Rightarrow> server \<Rightarrow> server" where
  "modify a f s = s\<lparr>heap := (heap s)[a := f (heap s ! a)]\<rparr>"

definition console_log :: "string \<Rightarrow> server \<Rightarrow> server" where
  "console_log line s = s\<lparr>console := console s @ [line]\<rparr>"

definition clearInterval :: "nat option \<Rightarrow> server \<Rightarrow> server" where
  "clearInterval h s = (case h of None \<Rightarrow> s | Some t \<Rightarrow> modify t (\<lambda>c. c\<lparr>interval_on := False\<rparr>) s)"

subsection \<open>The progress simulator\<close>

text \<open>\<^verbatim>\<open>simulateProgress(jobId)\<close> up to the call of \<^verbatim>\<open>setInterval\<close>.\<close>

definition simulateProgress :: "string \<Rightarrow> server \<Rightarrow> server" where
  "simulateProgress jobId s =
     (case jobs s jobId of
        None \<Rightarrow> s
      | Some a \<Rightarrow>
          modify a (\<lambda>c. c\<lparr>sim_progress := 5, interval_on := True,
                          job := (job c)\<lparr>progress := 5, progressIntervalId := Some a\<rparr>\<rparr>) s)"

text \<open>
  The callback given to \<^verbatim>\<open>setInterval\<close>, for the closure at address \<open>a\<close>; \<open>r\<close> is the
  value \<^verbatim>\<open>Math.random()\<close> returns. The closure variable is a double in the source and a
  real number here.
\<close>

definition interval_callback :: "nat \<Rightarrow> real \<Rightarrow> server \<Rightarrow> server" where
  "interval_callback a r s =
     (let c = heap s ! a; j = job c in
      if status j = Completed \<or> status j = Error then
        modify a (\<lambda>c. c\<lparr>job := (job c)\<lparr>progressIntervalId := None\<rparr>\<rparr>)
          (clearInterval (progressIntervalId j) s)
      else if sim_progress c < 90 then
        let p = min 90 (sim_progress c + r * 5) in
        (modify a (\<lambda>c. c\<lparr>sim_progress := p, job := (job c)\<lparr>progress := \<lfloor>p\<rfloor>\<rparr>\<rparr>) s)
          \<lparr>jobs := (jobs s)(id_job j \<mapsto> a)\<rparr>
      else s)"

subsection \<open>The conversion orchestrator\<close>

text \<open>The handler of \<^verbatim>\<open>.catch\<close> in \<^verbatim>\<open>processConversion\<close>. The artifact of a job is the
  entry \<^verbatim>\<open>{jobId}.mp3\<close> of the downloads directory.\<close>

definition catch_error :: "nat \<Rightarrow> string \<Rightarrow> server \<Rightarrow> server" where
  "catch_error a msg s =
     (let j = job (heap s ! a);
          s1 = console_log ''Conversion error:'' s;
          s2 = (if progressIntervalId j \<noteq> None
                then modify a (\<lambda>c. c\<lparr>job := (job c)\<lparr>progressIntervalId := None\<rparr>\<rparr>)
                       (clearInterval (progressIntervalId j) s1)
                else s1);
          s3 = (modify a (\<lambda>c. c\<lparr>phase := Settled,
                                  job := (job c)\<lparr>status := Error, error := Some msg\<rparr>\<rparr>) s2)
                 \<lparr>jobs := (jobs s2)(id_job j \<mapsto> a)\<rparr>;
          outputPath = id_job j @ ''.mp3''
      in case downloads s3 outputPath of
           None \<Rightarrow> s3
         | Some st \<Rightarrow>
             if unlinkable st then s3\<lparr>downloads := (downloads s3)(outputPath := None)\<rparr>
             else console_log ''Error cleaning up failed conversion:'' s3)"

text \<open>\<^verbatim>\<open>info.title\<close>: a TypeError on \<^verbatim>\<open>null\<close> and \<^verbatim>\<open>undefined\<close>, the property of an
  object, \<^verbatim>\<open>undefined\<close> on every other value.\<close>

fun title_prop :: "jsval \<Rightarrow> string + jsval" where
  "title_prop JUndefined = Inl ''Cannot read properties of undefined''"
| "title_prop JNull = Inl ''Cannot read properties of null''"
| "title_prop (JObj kvs) = Inr (case map_of kvs ''title'' of None \<Rightarrow> JUndefined | Some v \<Rightarrow> v)"
| "title_prop v = Inr JUndefined"

text \<open>
  The first \<^verbatim>\<open>.then\<close> handler, run when the metadata call resolves with \<open>info\<close>. An
  exception in it (\<^verbatim>\<open>info\<close> is null, or the title is a truthy value without a
  \<^verbatim>\<open>replace\<close> method) rejects the chain, which runs the \<^verbatim>\<open>.catch\<close> handler. Otherwise the
  extraction call is issued and the chain waits for it.
\<close>

definition then_info :: "nat \<Rightarrow> jsval \<Rightarrow> server \<Rightarrow> server" where
  "then_info a info s =
     (case title_prop info of
        Inl msg \<Rightarrow> catch_error a msg s
      | Inr t \<Rightarrow>
          if truthy t then
            (case t of
               JStr str \<Rightarrow>
                 (modify a (\<lambda>c. c\<lparr>phase := AwaitAudio,
                                  job := (job c)\<lparr>title := cleanTitle str, status := Processing,
                                                 progress := 20\<rparr>\<rparr>) s)
                   \<lparr>jobs := (jobs s)(id_job (job (heap s ! a)) \<mapsto> a)\<rparr>
             | _ \<Rightarrow> catch_error a ''info.title.replace is not a function'' s)
          else modify a (\<lambda>c. c\<lparr>phase := AwaitAudio\<rparr>) s)"

text \<open>The second \<^verbatim>\<open>.then\<close> handler, run when the extraction call resolves.\<close>

definition then_done :: "nat \<Rightarrow> server \<Rightarrow> server" where
  "then_done a s =
     (let j = job (heap s ! a);
          s1 = (if progressIntervalId j \<noteq> None
                then modify a (\<lambda>c. c\<lparr>job := (job c)\<lparr>progressIntervalId := None\<rparr>\<rparr>)
                       (clearInterval (progressIntervalId j) s)
                else s);
          s2 = (modify a (\<lambda>c. c\<lparr>phase := Settled,
                                  job := (job c)\<lparr>status := Completed, progress := 100\<rparr>\<rparr>) s1)
                 \<lparr>jobs := (jobs s1)(id_job j \<mapsto> a)\<rparr>
      in console_log (''Conversion completed for job '' @ id_job j) s2)"

text \<open>
  \<^verbatim>\<open>processConversion(jobId, url, quality)\<close> up to the first provider call. Its only call
  site has just stored the job, so \<^verbatim>\<open>jobs.get(jobId)\<close> is that object and the chain
  allocated with it waits for the metadata. The arguments \<^verbatim>\<open>url\<close> and \<^verbatim>\<open>quality\<close> only
  go to the provider.
\<close>

definition processConversion :: "string \<Rightarrow> server \<Rightarrow> server" where
  "processConversion jobId s =
     simulateProgress jobId (console_log (''Starting conversion for job '' @ jobId) s)"

text \<open>The handler of \<^verbatim>\<open>POST /api/convert\<close>; \<open>url\<close> and \<open>quality\<close> are the two properties
  read from the request body, \<open>now\<close> is \<^verbatim>\<open>Date.now()\<close>.\<close>

definition invalid_url :: response where
  "invalid_url = Json 400 (JObj [(''error'', JStr ''Invalid YouTube URL'')])"

definition failed :: "string \<Rightarrow> server \<Rightarrow> response \<times> server" where
  "failed msg s =
     (Json 500 (JObj [(''error'', JStr (''Failed to process video: '' @ msg))]),
      console_log ''Conversion error:'' s)"

definition accept :: "jsval \<Rightarrow> int \<Rightarrow> server \<Rightarrow> response \<times> server" where
  "accept qual now s =
     (let jobId = toString now;
          obj = \<lparr>id_job = jobId, status = Processing, title = ''Unknown Title'',
                 quality = (if truthy qual then qual else JStr ''192''),
                 progress = 0, error = None, progressIntervalId = None\<rparr>;
          s1 = s\<lparr>heap := heap s @ [\<lparr>job = obj, sim_progress = 0, interval_on = False,
                                     phase = AwaitInfo\<rparr>],
                 jobs := (jobs s)(jobId \<mapsto> length (heap s))\<rparr>
      in (Json 200 (JObj [(''jobId'', JStr jobId), (''title'', JStr ''Processing...'')]),
          processConversion jobId s1))"

definition post_convert :: "jsval \<Rightarrow> jsval \<Rightarrow> int \<Rightarrow> server \<Rightarrow> response \<times> server" where
  "post_convert url qual now s =
     (if \<not> truthy url then (invalid_url, s)
      else case js_includes url ''youtube.com/'' of
             Inl msg \<Rightarrow> failed msg s
           | Inr True \<Rightarrow> accept qual now s
           | Inr False \<Rightarrow>
               (case js_includes url ''youtu.be/'' of
                  Inl msg \<Rightarrow> failed msg s
                | Inr True \<Rightarrow> accept qual now s
                | Inr False \<Rightarrow> (invalid_url, s)))"

subsection \<open>The download finalizer\<close>

definition not_ready :: response where
  "not_ready = Json 404 (JObj [(''error'', JStr ''File not ready or not found'')])"

definition file_not_found :: response where
  "file_not_found = Json 404 (JObj [(''error'', JStr ''File not found'')])"

text \<open>The handler of \<^verbatim>\<open>GET /api/download/:jobId\<close> up to the call of \<^verbatim>\<open>res.download\<close>, which
  starts a transfer.\<close>

definition get_download :: "string \<Rightarrow> server \<Rightarrow> response \<times> server" where
  "get_download jobId s =
     (case jobs s jobId of
        None \<Rightarrow> (not_ready, s)
      | Some a \<Rightarrow>
          let j = job (heap s ! a) in
          if status j \<noteq> Completed then (not_ready, s)
          else let filePath = jobId @ ''.mp3'' in
            if downloads s filePath = None then (file_not_found, s)
            else (Download filePath (title j @ ''.mp3''),
                  s\<lparr>transfers := transfers s @ [jobId]\<rparr>))"

text \<open>The callback of \<^verbatim>\<open>res.download\<close>, run when the transfer of \<open>jobId\<close> ends, with or
  without an error: it registers a timeout of 30000 milliseconds.\<close>

definition download_callback :: "string \<Rightarrow> bool \<Rightarrow> server \<Rightarrow> server" where
  "download_callback jobId err s =
     (let s1 = (if err then console_log ''Download error:'' s else s)
      in s1\<lparr>timeouts := timeouts s1 @ [(30000, jobId)]\<rparr>)"

text \<open>The callback of that timeout. An exception of \<^verbatim>\<open>unlinkSync\<close> skips the rest of
  the \<^verbatim>\<open>try\<close> block, \<^verbatim>\<open>jobs.delete\<close> included.\<close>

definition timeout_callback :: "string \<Rightarrow> server \<Rightarrow> server" where
  "timeout_callback jobId s =
     (let filePath = jobId @ ''.mp3'' in
      case downloads s filePath of
        None \<Rightarrow> s\<lparr>jobs := (jobs s)(jobId := None)\<rparr>
      | Some st \<Rightarrow>
          if unlinkable st then
            (console_log (''Deleted file: '' @ filePath) (s\<lparr>downloads := (downloads s)(filePath := None)\<rparr>))
              \<lparr>jobs := (jobs s)(jobId := None)\<rparr>
          else console_log ''Error deleting file:'' s)"

subsection \<open>The retention sweeper\<close>

text \<open>
  The body of \<^verbatim>\<open>files.forEach\<close> in the cleanup interval, on the pair of the server state
  and \<^verbatim>\<open>deletedCount\<close>. \<^verbatim>\<open>statSync\<close> raises when the entry does not exist, \<^verbatim>\<open>unlinkSync\<close>
  when the entry is not unlinkable; the \<^verbatim>\<open>catch\<close> logs and the loop goes on.
\<close>

definition sweep_file :: "int \<Rightarrow> string \<Rightarrow> server \<times> nat \<Rightarrow> server \<times> nat" where
  "sweep_file now file acc =
     (let s = fst acc; deletedCount = snd acc in
      case downloads s file of
        None \<Rightarrow> (console_log (''Error processing file '' @ file) s, deletedCount)
      | Some stats \<Rightarrow>
          let fileAge = real_of_int now - mtimeMs stats in
          if fileAge > 3600000 then
            if unlinkable stats then
              let s1 = s\<lparr>downloads := (downloads s)(file := None)\<rparr>;
                  jobId = parse_name file
              in (if jobs s1 jobId \<noteq> None then s1\<lparr>jobs := (jobs s1)(jobId := None)\<rparr> else s1,
                  deletedCount + 1)
            else (console_log (''Error processing file '' @ file) s, deletedCount)
          else (s, deletedCount))"

text \<open>One run of the cleanup interval; \<open>files\<close> is what \<^verbatim>\<open>fs.readdirSync('downloads')\<close>
  returns.\<close>

definition cleanup :: "int \<Rightarrow> string list \<Rightarrow> server \<Rightarrow> server" where
  "cleanup now files s =
     (let r = fold (sweep_file now) files (console_log ''Running scheduled cleanup...'' s, 0)
      in if snd r > 0
         then console_log (''Cleaned up '' @ toString (int (snd r)) @ '' old files'') (fst r)
         else fst r)"

section \<open>The event loop\<close>

text \<open>
  Node runs one callback at a time. An event is one callback run to completion, with
  what the environment supplies to it: a request, the clock, the provider's answer, the
  random number, the directory listing. \<open>FsWrite\<close> and \<open>FsRemove\<close> are the provider (or
  anything else) writing and removing an entry of the downloads directory. An event
  that is not enabled (a timer that was cleared, a promise that is not pending) leaves
  the state as it is. Time is not measured: a timeout is recorded with the delay it was
  registered with and may fire at any later point, and the sweeper may run at any
  point. The routes \<^verbatim>\<open>GET /api/status/:jobId\<close> and \<^verbatim>\<open>POST /api/videoinfo\<close> read
  the state and do not change it; they are not events.
\<close>

datatype event =
    PostConvert jsval jsval int
  | GetDownload string
  | TransferEnd nat bool
  | TimeoutFired nat
  | Tick nat real
  | InfoResolved nat jsval
  | AudioResolved nat
  | Rejected nat string
  | Cleanup int "string list"
  | FsWrite string dirent
  | FsRemove string

definition remove_nth :: "nat \<Rightarrow> 'a list \<Rightarrow> 'a list" where
  "remove_nth k xs = take k xs @ drop (Suc k) xs"

fun step :: "event \<Rightarrow> server \<Rightarrow> server" where
  "step (PostConvert url qual now) s = snd (post_convert url qual now s)"
| "step (GetDownload jobId) s = snd (get_download jobId s)"
| "step (TransferEnd k err) s =
     (if k < length (transfers s)
      then download_callback (transfers s ! k) err (s\<lparr>transfers := remove_nth k (transfers s)\<rparr>)
      else s)"
| "step (TimeoutFired k) s =
     (if k < length (timeouts s)
      then timeout_callback (snd (timeouts s ! k)) (s\<lparr>timeouts := remove_nth k (timeouts s)\<rparr>)
      else s)"
| "step (Tick a r) s =
     (if a < length (heap s) \<and> interval_on (heap s ! a) \<and> 0 \<le> r \<and> r < 1
      then interval_callback a r s else s)"
| "step (InfoResolved a info) s =
     (if a < length (heap s) \<and> phase (heap s ! a) = AwaitInfo then then_info a info s else s)"
| "step (AudioResolved a) s =
     (if a < length (heap s) \<and> phase (heap s ! a) = AwaitAudio then then_done a s else s)"
| "step (Rejected a msg) s =
     (if a < length (heap s) \<and> phase (heap s ! a) \<noteq> Settled then catch_error a msg s else s)"
| "step (Cleanup now files) s = cleanup now files s"
| "step (FsWrite name st) s = s\<lparr>downloads := (downloads s)(name \<mapsto> st)\<rparr>"
| "step (FsRemove name) s = s\<lparr>downloads := (downloads s)(name := None)\<rparr>"

definition run :: "event list \<Rightarrow> server \<Rightarrow> server" where
  "run es s = fold step es s"

section \<open>Invariants\<close>

text \<open>
  What holds of the object at address \<open>a\<close> in every state the server reaches: its chain
  has settled exactly when its status is terminal, a completed job shows 100 and every
  other job at most 90, and the job holds the handle of its interval exactly while that
  interval is set.
\<close>

definition conv_inv :: "nat \<Rightarrow> conversion \<Rightarrow> bool" where
  "conv_inv a c \<longleftrightarrow>
     (phase c = Settled) = (status (job c) \<noteq> Processing) \<and>
     (if status (job c) = Completed then progress (job c) = 100 else progress (job c) \<le> 90) \<and>
     progressIntervalId (job c) = (if interval_on c then Some a else None)"

definition heap_inv :: "server \<Rightarrow> bool" where
  "heap_inv s \<longleftrightarrow> (\<forall>a < length (heap s). conv_inv a (heap s ! a))"

text \<open>
  In every state the server reaches, an id is bound in the registry to a job object
  that carries this id, and a transfer or a timeout is pending only for an id that
  some completed job carries.
\<close>

definition reg_inv :: "server \<Rightarrow> bool" where
  "reg_inv s \<longleftrightarrow>
     (\<forall>k a. jobs s k = Some a \<longrightarrow> a < length (heap s) \<and> id_job (job (heap s ! a)) = k)"

definition pending_inv :: "server \<Rightarrow> bool" where
  "pending_inv s \<longleftrightarrow>
     (\<forall>k \<in> set (transfers s) \<union> snd ` set (timeouts s).
        \<exists>b < length (heap s). id_job (job (heap s ! b)) = k \<and>
                               status (job (heap s ! b)) = Completed)"

section \<open>Predicates used in the statements\<close>

text \<open>The condition under which the sweeper, visiting an entry at clock reading \<open>now\<close>,
  deletes it: \<^verbatim>\<open>statSync\<close> finds it, it is older than 3600000 milliseconds, and
  \<^verbatim>\<open>unlinkSync\<close> does not raise.\<close>

definition swept :: "int \<Rightarrow> dirent option \<Rightarrow> bool" where
  "swept now e =
     (case e of None \<Rightarrow> False
      | Some st \<Rightarrow> real_of_int now - mtimeMs st > 3600000 \<and> unlinkable st)"

text \<open>An event is quiet for the id \<open>k\<close> when it is not a request stamped with the clock
  reading \<open>k\<close> and not a pass of the sweeper over a listing with an entry named \<open>k\<close>
  (with or without an extension).\<close>

fun quiet :: "string \<Rightarrow> event \<Rightarrow> bool" where
  "quiet k (PostConvert url qual now) = (toString now \<noteq> k)"
| "quiet k (Cleanup now files) = (\<forall>f \<in> set files. parse_name f \<noteq> k)"
| "quiet k e = True"

text \<open>The job object at \<open>a\<close> has failed, is registered under \<open>k\<close>, and is the only
  object that carries the id \<open>k\<close>.\<close>

definition failed_alone :: "string \<Rightarrow> nat \<Rightarrow> server \<Rightarrow> bool" where
  "failed_alone k a s \<longleftrightarrow>
     jobs s k = Some a \<and> a < length (heap s) \<and> status (job (heap s ! a)) = Error \<and>
     (\<forall>b < length (heap s). b \<noteq> a \<longrightarrow> id_job (job (heap s ! b)) \<noteq> k)"

text \<open>The specification says of the title: non-alphanumeric, non-whitespace characters
  stripped. This is that sentence, to compare with \<open>cleanTitle\<close>, which follows the
  regular expression of the source.\<close>

definition spec_strip_title :: "string \<Rightarrow> string" where
  "spec_strip_title t = filter (\<lambda>c. is_alnum c \<or> is_space c) t"

section \<open>Example inputs\<close>

text \<open>A request for a video, the metadata the provider answers with, and one life of a
  job: accepted at clock reading 1000, metadata received, one tick of the simulator
  with random number 1/2, extraction finished.\<close>

definition demo_url :: jsval where
  "demo_url = JStr ''https://youtu.be/x''"

definition demo_info :: jsval where
  "demo_info = JObj [(''title'', JStr ''Song_1!'')]"

definition demo_life :: "event list" where
  "demo_life = [PostConvert demo_url JUndefined 1000, InfoResolved 0 demo_info,
                Tick 0 (1/2), AudioResolved 0]"

text \<open>The same job up to the metadata, and with the four ticks before the metadata
  that make the simulator pass 20.\<close>

definition demo_metadata :: "event list" where
  "demo_metadata = [PostConvert demo_url JUndefined 1000, InfoResolved 0 demo_info]"

definition demo_slow_metadata :: "event list" where
  "demo_slow_metadata = [PostConvert demo_url JUndefined 1000, Tick 0 (9/10), Tick 0 (9/10),
                         Tick 0 (9/10), Tick 0 (9/10)]"

text \<open>Two requests accepted at the same clock reading.\<close>

definition demo_first :: server where
  "demo_first = snd (post_convert demo_url JUndefined 1000 init)"

definition demo_second :: server where
  "demo_second = snd (post_convert demo_url JUndefined 1000 demo_first)"

text \<open>The job of \<open>demo_metadata\<close> with a partly written artifact that cannot be unlinked,
  and with one that can.\<close>

definition demo_partial_locked :: "event list" where
  "demo_partial_locked =
     demo_metadata @ [FsWrite ''1000.mp3'' \<lparr>mtimeMs = 1500, unlinkable = False\<rparr>]"

definition demo_partial :: "event list" where
  "demo_partial =
     demo_metadata @ [FsWrite ''1000.mp3'' \<lparr>mtimeMs = 1500, unlinkable = True\<rparr>]"

text \<open>The job of \<open>demo_life\<close> with its artifact written, before and after a client has
  asked for it and the transfer has ended.\<close>

definition demo_ready :: "event list" where
  "demo_ready = demo_life @ [FsWrite ''1000.mp3'' \<lparr>mtimeMs = 2000, unlinkable = True\<rparr>]"

definition demo_downloaded :: "event list" where
  "demo_downloaded = demo_ready @ [GetDownload ''1000'', TransferEnd 0 False]"

text \<open>A downloads directory at clock reading 4000000: an old artifact of job 1000, a
  young one of job 3999000, an old entry that cannot be unlinked, and a name in the
  listing that has no entry any more. The registry knows the jobs 1000 and 3999000.\<close>

definition demo_dir :: server where
  "demo_dir =
     \<lparr>jobs = [''1000'' \<mapsto> 0, ''3999000'' \<mapsto> 1],
      heap = [],
      downloads = [''1000.mp3'' \<mapsto> \<lparr>mtimeMs = 2000, unlinkable = True\<rparr>,
                   ''3999000.mp3'' \<mapsto> \<lparr>mtimeMs = 3999500, unlinkable = True\<rparr>,
                   ''old'' \<mapsto> \<lparr>mtimeMs = 1, unlinkable = False\<rparr>],
      transfers = [], timeouts = [], console = []\<rparr>"

definition demo_listing :: "string list" where
  "demo_listing = [''gone.mp3'', ''old'', ''1000.mp3'', ''3999000.mp3'']"

text \<open>A job that fails at its first provider call, and what happens afterwards: a tick,
  a download attempt, a pass of the sweeper over an empty directory, an unrelated
  request that completes and writes its artifact, and a pass of the sweeper late enough
  to delete that artifact.\<close>

definition demo_failed :: "event list" where
  "demo_failed = [PostConvert demo_url JUndefined 1000, Rejected 0 ''HTTP Error 403'']"

definition demo_later :: "event list" where
  "demo_later =
     [Tick 0 (1/2), GetDownload ''1000'', Cleanup 2000 [],
      PostConvert demo_url JUndefined 5000, InfoResolved 1 demo_info,
      FsWrite ''5000.mp3'' \<lparr>mtimeMs = 6000, unlinkable = True\<rparr>, AudioResolved 1,
      Cleanup 4000000 [''5000.mp3'']]"

text \<open>Two requests accepted at clock reading 1000. The second job completes and is
  downloaded; then the first job fails.\<close>

definition demo_shared_id :: "event list" where
  "demo_shared_id =
     [PostConvert demo_url JUndefined 1000, PostConvert demo_url JUndefined 1000,
      InfoResolved 1 demo_info,
      FsWrite ''1000.mp3'' \<lparr>mtimeMs = 2000, unlinkable = True\<rparr>, AudioResolved 1,
      GetDownload ''1000'', TransferEnd 0 False, Rejected 0 ''HTTP Error 403'']"

section \<open>Strings\<close>

lemma starts_with_iff: "starts_with s m \<longleftrightarrow> (\<exists>q. s = m @ q)"
  by (induction s m rule: starts_with.induct) auto

lemma str_includes_iff: "str_includes s m \<longleftrightarrow> (\<exists>p q. s = p @ m @ q)"
proof (induction s)
  case Nil
  then show ?case by auto
next
  case (Cons x s)
  show ?case
  proof
    assume "str_includes (x # s) m"
    then consider "starts_with (x # s) m" | "str_includes s m" by auto
    then show "\<exists>p q. x # s = p @ m @ q"
    proof cases
      case 1
      then obtain q where "x # s = m @ q" by (auto simp: starts_with_iff)
      then have "x # s = [] @ m @ q" by simp
      then show ?thesis by blast
    next
      case 2
      then obtain p q where "s = p @ m @ q" using Cons.IH by blast
      then have "x # s = (x # p) @ m @ q" by simp
      then show ?thesis by blast
    qed
  next
    assume "\<exists>p q. x # s = p @ m @ q"
    then obtain p q where pq: "x # s = p @ m @ q" by blast
    show "str_includes (x # s) m"
    proof (cases p)
      case Nil
      with pq have "starts_with (x # s) m" by (auto simp: starts_with_iff)
      then show ?thesis by simp
    next
      case (Cons y p')
      with pq have "s = p' @ m @ q" by simp
      then have "str_includes s m" using Cons.IH by blast
      then show ?thesis by simp
    qed
  qed
qed

lemma digit_char_inj: "a < 10 \<Longrightarrow> b < 10 \<Longrightarrow> digit_char a = digit_char b \<Longrightarrow> a = b"
proof -
  assume a: "a < 10" and b: "b < 10" and e: "digit_char a = digit_char b"
  have d: "distinct ''0123456789''" by simp
  have "a < length ''0123456789''" "b < length ''0123456789''" using a b by simp_all
  with d e show "a = b" unfolding digit_char_def by (simp only: nth_eq_iff_index_eq)
qed

lemma digits_nonempty: "digits n \<noteq> []"
  by (subst digits.simps) simp

lemma digits_inj: "digits n = digits m \<Longrightarrow> n = m"
proof (induction n arbitrary: m rule: digits.induct)
  case (1 n)
  show ?case
  proof (cases "n < 10")
    case True
    then have dn: "digits n = [digit_char n]" by (subst digits.simps) simp
    show ?thesis
    proof (cases "m < 10")
      case mt: True
      then have "digits m = [digit_char m]" by (subst digits.simps) simp
      with dn "1.prems" True mt show ?thesis by (auto dest: digit_char_inj)
    next
      case False
      then have "digits m = digits (m div 10) @ [digit_char (m mod 10)]"
        by (subst digits.simps) simp
      with dn "1.prems" have "digits (m div 10) = []" by simp
      then show ?thesis by (simp add: digits_nonempty)
    qed
  next
    case False
    then have dn: "digits n = digits (n div 10) @ [digit_char (n mod 10)]"
      by (subst digits.simps) simp
    show ?thesis
    proof (cases "m < 10")
      case True
      then have "digits m = [digit_char m]" by (subst digits.simps) simp
      with dn "1.prems" have "digits (n div 10) = []" by simp
      then show ?thesis by (simp add: digits_nonempty)
    next
      case mf: False
      then have "digits m = digits (m div 10) @ [digit_char (m mod 10)]"
        by (subst digits.simps) simp
      with dn "1.prems" have e1: "digits (n div 10) = digits (m div 10)"
        and e2: "digit_char (n mod 10) = digit_char (m mod 10)" by simp_all
      from "1.IH"[OF False e1] have "n div 10 = m div 10" .
      moreover from e2 have "n mod 10 = m mod 10" by (rule digit_char_inj[rotated 2]) simp_all
      ultimately show ?thesis by (metis div_mult_mod_eq)
    qed
  qed
qed

lemma digit_char_not_minus: "d < 10 \<Longrightarrow> digit_char d \<noteq> CHR ''-''"
proof -
  assume "d < 10"
  then have "d \<in> {0,1,2,3,4,5,6,7,8,9}" by auto
  then show ?thesis unfolding digit_char_def by auto
qed

lemma digits_hd: "hd (digits n) \<noteq> CHR ''-''"
proof (induction n rule: digits.induct)
  case (1 n)
  show ?case
  proof (cases "n < 10")
    case True
    then have "digits n = [digit_char n]" by (subst digits.simps) simp
    with True show ?thesis by (simp add: digit_char_not_minus)
  next
    case False
    then have "digits n = digits (n div 10) @ [digit_char (n mod 10)]"
      by (subst digits.simps) simp
    with "1.IH"[OF False] show ?thesis by (simp add: digits_nonempty)
  qed
qed

lemma toString_inj: "toString a = toString b \<Longrightarrow> a = b"
proof -
  assume e: "toString a = toString b"
  have neg: "\<And>x y. CHR ''-'' # digits x \<noteq> digits y"
  proof
    fix x y assume "CHR ''-'' # digits x = digits y"
    then have "hd (digits y) = CHR ''-''" by (metis list.sel(1))
    then show False by (simp add: digits_hd)
  qed
  show ?thesis
  proof (cases "a < 0"; cases "b < 0")
    assume "a < 0" "b < 0"
    with e have "nat (- a) = nat (- b)" by (auto simp: toString_def dest: digits_inj)
    with \<open>a < 0\<close> \<open>b < 0\<close> show ?thesis by simp
  next
    assume "a < 0" "\<not> b < 0"
    with e neg show ?thesis by (auto simp: toString_def)
  next
    assume "\<not> a < 0" "b < 0"
    with e neg[of "nat (- b)" "nat a"] show ?thesis by (auto simp: toString_def)
  next
    assume "\<not> a < 0" "\<not> b < 0"
    with e have "nat a = nat b" by (auto simp: toString_def dest: digits_inj)
    with \<open>\<not> a < 0\<close> \<open>\<not> b < 0\<close> show ?thesis by simp
  qed
qed

section \<open>The invariant is kept by every event\<close>

lemma heap_modify [simp]: "heap (modify a f s) = (heap s)[a := f (heap s ! a)]"
  and jobs_modify [simp]: "jobs (modify a f s) = jobs s"
  and downloads_modify [simp]: "downloads (modify a f s) = downloads s"
  and transfers_modify [simp]: "transfers (modify a f s) = transfers s"
  and timeouts_modify [simp]: "timeouts (modify a f s) = timeouts s"
  and console_modify [simp]: "console (modify a f s) = console s"
  by (simp_all add: modify_def)

lemma heap_console_log [simp]: "heap (console_log l s) = heap s"
  and jobs_console_log [simp]: "jobs (console_log l s) = jobs s"
  and downloads_console_log [simp]: "downloads (console_log l s) = downloads s"
  and transfers_console_log [simp]: "transfers (console_log l s) = transfers s"
  and timeouts_console_log [simp]: "timeouts (console_log l s) = timeouts s"
  and console_console_log [simp]: "console (console_log l s) = console s @ [l]"
  by (simp_all add: console_log_def)

lemma heap_clearInterval:
  "heap (clearInterval h s) =
     (case h of None \<Rightarrow> heap s | Some t \<Rightarrow> (heap s)[t := (heap s ! t)\<lparr>interval_on := False\<rparr>])"
  and jobs_clearInterval [simp]: "jobs (clearInterval h s) = jobs s"
  and downloads_clearInterval [simp]: "downloads (clearInterval h s) = downloads s"
  and transfers_clearInterval [simp]: "transfers (clearInterval h s) = transfers s"
  and timeouts_clearInterval [simp]: "timeouts (clearInterval h s) = timeouts s"
  and console_clearInterval [simp]: "console (clearInterval h s) = console s"
  by (simp_all add: clearInterval_def split: option.splits)


lemma heap_inv_heap_eq: "heap s' = heap s \<Longrightarrow> heap_inv s' = heap_inv s"
  by (simp add: heap_inv_def)

lemma heap_inv_downloads_update [simp]: "heap_inv (s\<lparr>downloads := d\<rparr>) = heap_inv s"
  and heap_inv_jobs_update [simp]: "heap_inv (s\<lparr>jobs := m\<rparr>) = heap_inv s"
  and heap_inv_transfers_update [simp]: "heap_inv (s\<lparr>transfers := t\<rparr>) = heap_inv s"
  and heap_inv_timeouts_update [simp]: "heap_inv (s\<lparr>timeouts := u\<rparr>) = heap_inv s"
  and heap_inv_console_log [simp]: "heap_inv (console_log l s) = heap_inv s"
  by (simp_all add: heap_inv_def)

lemma heap_inv_catch_error:
  assumes "heap_inv s" and "a < length (heap s)" and "phase (heap s ! a) \<noteq> Settled"
  shows "heap_inv (catch_error a msg s)"
  using assms
  by (auto simp: heap_inv_def conv_inv_def catch_error_def Let_def heap_clearInterval
        nth_list_update split: option.splits if_splits)

lemma heap_inv_then_done:
  assumes "heap_inv s" and "a < length (heap s)"
  shows "heap_inv (then_done a s)"
  using assms
  by (auto simp: heap_inv_def conv_inv_def then_done_def Let_def heap_clearInterval
        nth_list_update split: option.splits if_splits)

lemma heap_inv_then_info:
  assumes "heap_inv s" and "a < length (heap s)" and "phase (heap s ! a) = AwaitInfo"
  shows "heap_inv (then_info a info s)"
proof (cases "title_prop info")
  case (Inl msg)
  with assms show ?thesis by (simp add: then_info_def heap_inv_catch_error)
next
  case (Inr t)
  show ?thesis
  proof (cases "truthy t")
    case False
    with Inr assms show ?thesis
      by (auto simp: then_info_def heap_inv_def conv_inv_def nth_list_update)
  next
    case True
    show ?thesis
    proof (cases "\<exists>str. t = JStr str")
      case True
      then obtain str where "t = JStr str" by blast
      with Inr \<open>truthy t\<close> assms show ?thesis
        by (auto simp: then_info_def heap_inv_def conv_inv_def nth_list_update)
    next
      case False
      with Inr \<open>truthy t\<close> have "then_info a info s =
          catch_error a ''info.title.replace is not a function'' s"
        by (cases t) (simp_all add: then_info_def)
      with assms show ?thesis by (simp add: heap_inv_catch_error)
    qed
  qed
qed

lemma floor_min_90: "\<lfloor>min 90 (x::real)\<rfloor> \<le> 90"
  by (simp add: floor_le_iff min_def)

lemma heap_inv_interval_callback:
  assumes "heap_inv s" and "a < length (heap s)"
  shows "heap_inv (interval_callback a r s)"
  using assms floor_min_90[of "sim_progress (heap s ! a) + r * 5"]
  by (auto simp: heap_inv_def conv_inv_def interval_callback_def Let_def heap_clearInterval
        nth_list_update split: option.splits if_splits)


lemma accept_heap:
  "heap (snd (accept qual now s)) =
     heap s @ [\<lparr>job = \<lparr>id_job = toString now, status = Processing, title = ''Unknown Title'',
                         quality = (if truthy qual then qual else JStr ''192''), progress = 5,
                         error = None, progressIntervalId = Some (length (heap s))\<rparr>,
                sim_progress = 5, interval_on = True, phase = AwaitInfo\<rparr>]"
  by (simp add: accept_def processConversion_def simulateProgress_def Let_def)

lemma accept_rest:
  "fst (accept qual now s) =
     Json 200 (JObj [(''jobId'', JStr (toString now)), (''title'', JStr ''Processing...'')])"
  "jobs (snd (accept qual now s)) = (jobs s)(toString now \<mapsto> length (heap s))"
  "downloads (snd (accept qual now s)) = downloads s"
  "transfers (snd (accept qual now s)) = transfers s"
  "timeouts (snd (accept qual now s)) = timeouts s"
  by (simp_all add: accept_def processConversion_def simulateProgress_def Let_def)

lemma heap_inv_accept: "heap_inv s \<Longrightarrow> heap_inv (snd (accept qual now s))"
  by (auto simp: heap_inv_def accept_heap nth_append conv_inv_def less_Suc_eq)

lemma post_convert_cases:
  "post_convert url qual now s = accept qual now s \<or>
   (\<exists>r. post_convert url qual now s = (r, s)) \<or>
   (\<exists>r. post_convert url qual now s = (r, console_log ''Conversion error:'' s))"
  by (auto simp: post_convert_def failed_def split: sum.splits bool.splits)

lemma heap_inv_post_convert: "heap_inv s \<Longrightarrow> heap_inv (snd (post_convert url qual now s))"
  using post_convert_cases[of url qual now s] by (auto simp: heap_inv_accept)

lemma get_download_heap [simp]: "heap (snd (get_download jobId s)) = heap s"
  and get_download_jobs [simp]: "jobs (snd (get_download jobId s)) = jobs s"
  and get_download_downloads [simp]: "downloads (snd (get_download jobId s)) = downloads s"
  and get_download_timeouts [simp]: "timeouts (snd (get_download jobId s)) = timeouts s"
  by (simp_all add: get_download_def Let_def split: option.splits)

lemma download_callback_heap [simp]: "heap (download_callback jobId err s) = heap s"
  and download_callback_jobs [simp]: "jobs (download_callback jobId err s) = jobs s"
  and download_callback_downloads [simp]:
    "downloads (download_callback jobId err s) = downloads s"
  and download_callback_transfers [simp]:
    "transfers (download_callback jobId err s) = transfers s"
  and download_callback_timeouts [simp]:
    "timeouts (download_callback jobId err s) = timeouts s @ [(30000, jobId)]"
  by (simp_all add: download_callback_def Let_def)

lemma timeout_callback_heap [simp]: "heap (timeout_callback jobId s) = heap s"
  and timeout_callback_transfers [simp]: "transfers (timeout_callback jobId s) = transfers s"
  and timeout_callback_timeouts [simp]: "timeouts (timeout_callback jobId s) = timeouts s"
  by (simp_all add: timeout_callback_def Let_def split: option.splits)

lemma sweep_file_heap [simp]: "heap (fst (sweep_file now f acc)) = heap (fst acc)"
  and sweep_file_transfers [simp]: "transfers (fst (sweep_file now f acc)) = transfers (fst acc)"
  and sweep_file_timeouts [simp]: "timeouts (fst (sweep_file now f acc)) = timeouts (fst acc)"
  by (simp_all add: sweep_file_def Let_def split: option.splits)

lemma fold_sweep_file_heap [simp]:
  "heap (fst (fold (sweep_file now) files acc)) = heap (fst acc)"
  and fold_sweep_file_transfers [simp]:
  "transfers (fst (fold (sweep_file now) files acc)) = transfers (fst acc)"
  and fold_sweep_file_timeouts [simp]:
  "timeouts (fst (fold (sweep_file now) files acc)) = timeouts (fst acc)"
  by (induction files arbitrary: acc; simp)+

lemma cleanup_heap [simp]: "heap (cleanup now files s) = heap s"
  and cleanup_transfers [simp]: "transfers (cleanup now files s) = transfers s"
  and cleanup_timeouts [simp]: "timeouts (cleanup now files s) = timeouts s"
  by (simp_all add: cleanup_def Let_def)

lemma heap_inv_step: "heap_inv s \<Longrightarrow> heap_inv (step e s)"
proof (cases e)
  case (PostConvert url qual now)
  assume "heap_inv s"
  with PostConvert show ?thesis by (simp add: heap_inv_post_convert)
next
  case (Tick a r)
  assume "heap_inv s"
  with Tick show ?thesis by (simp add: heap_inv_interval_callback)
next
  case (InfoResolved a info)
  assume "heap_inv s"
  with InfoResolved show ?thesis by (simp add: heap_inv_then_info)
next
  case (AudioResolved a)
  assume "heap_inv s"
  with AudioResolved show ?thesis by (simp add: heap_inv_then_done)
next
  case (Rejected a msg)
  assume "heap_inv s"
  with Rejected show ?thesis by (simp add: heap_inv_catch_error)
next
  case (GetDownload jobId)
  assume "heap_inv s"
  then show ?thesis by (simp add: GetDownload heap_inv_def)
next
  case (TransferEnd k err)
  assume "heap_inv s"
  then show ?thesis by (simp add: TransferEnd heap_inv_def)
next
  case (TimeoutFired k)
  assume "heap_inv s"
  then show ?thesis by (simp add: TimeoutFired heap_inv_def)
next
  case (Cleanup now files)
  assume "heap_inv s"
  then show ?thesis by (simp add: Cleanup heap_inv_def)
next
  case (FsWrite name st)
  assume "heap_inv s"
  then show ?thesis by (simp add: FsWrite)
next
  case (FsRemove name)
  assume "heap_inv s"
  then show ?thesis by (simp add: FsRemove)
qed

lemma run_snoc: "run (es @ [e]) s = step e (run es s)"
  by (simp add: run_def)

lemma run_Nil [simp]: "run [] s = s"
  and run_Cons: "run (e # es) s = run es (step e s)"
  by (simp_all add: run_def)

lemma heap_inv_run: "heap_inv s \<Longrightarrow> heap_inv (run es s)"
  by (induction es arbitrary: s) (simp_all add: run_Cons heap_inv_step)

lemma heap_inv_init: "heap_inv init"
  by (simp add: heap_inv_def init_def)

section \<open>What a callback leaves alone\<close>

lemma nth_list_update_if: "xs[i := x] ! j = (if i = j \<and> j < length xs then x else xs ! j)"
  by (cases "i < length xs") (auto simp: nth_list_update list_update_beyond)

lemma catch_error_length [simp]: "length (heap (catch_error b msg s)) = length (heap s)"
  by (simp add: catch_error_def Let_def heap_clearInterval split: option.splits)

lemma then_done_length [simp]: "length (heap (then_done b s)) = length (heap s)"
  by (simp add: then_done_def Let_def heap_clearInterval split: option.splits)

lemma then_info_length [simp]: "length (heap (then_info b info s)) = length (heap s)"
  by (simp add: then_info_def split: sum.splits jsval.splits)

lemma interval_callback_length [simp]:
  "length (heap (interval_callback b r s)) = length (heap s)"
  by (simp add: interval_callback_def Let_def heap_clearInterval split: option.splits)

lemma post_convert_length: "length (heap s) \<le> length (heap (snd (post_convert url qual now s)))"
  using post_convert_cases[of url qual now s] by (auto simp: accept_heap)

lemma step_length: "length (heap s) \<le> length (heap (step e s))"
  by (cases e) (simp_all add: post_convert_length)

text \<open>Handlers leave the identifier of every job alone.\<close>

lemma catch_error_id [simp]:
  "a < length (heap s) \<Longrightarrow>
   id_job (job (heap (catch_error b msg s) ! a)) = id_job (job (heap s ! a))"
  by (auto simp: catch_error_def Let_def heap_clearInterval nth_list_update_if
        split: option.splits)

lemma then_done_id [simp]:
  "a < length (heap s) \<Longrightarrow>
   id_job (job (heap (then_done b s) ! a)) = id_job (job (heap s ! a))"
  by (auto simp: then_done_def Let_def heap_clearInterval nth_list_update_if
        split: option.splits)

lemma then_info_id [simp]:
  "a < length (heap s) \<Longrightarrow>
   id_job (job (heap (then_info b info s) ! a)) = id_job (job (heap s ! a))"
  by (auto simp: then_info_def nth_list_update_if split: sum.splits jsval.splits)

lemma interval_callback_id [simp]:
  "a < length (heap s) \<Longrightarrow>
   id_job (job (heap (interval_callback b r s) ! a)) = id_job (job (heap s ! a))"
  by (auto simp: interval_callback_def Let_def heap_clearInterval nth_list_update_if
        split: option.splits)

lemma post_convert_nth:
  "a < length (heap s) \<Longrightarrow> heap (snd (post_convert url qual now s)) ! a = heap s ! a"
  using post_convert_cases[of url qual now s] by (auto simp: accept_heap nth_append)

lemma step_id:
  "a < length (heap s) \<Longrightarrow> id_job (job (heap (step e s) ! a)) = id_job (job (heap s ! a))"
  by (cases e) (simp_all add: post_convert_nth)

text \<open>A handler running for the object at \<open>b\<close> leaves the status and the progress of
  every other object alone.\<close>

lemma catch_error_other:
  "a \<noteq> b \<Longrightarrow> a < length (heap s) \<Longrightarrow>
   status (job (heap (catch_error b msg s) ! a)) = status (job (heap s ! a)) \<and>
   progress (job (heap (catch_error b msg s) ! a)) = progress (job (heap s ! a))"
  by (auto simp: catch_error_def Let_def heap_clearInterval nth_list_update_if
        split: option.splits)

lemma then_done_other:
  "a \<noteq> b \<Longrightarrow> a < length (heap s) \<Longrightarrow>
   status (job (heap (then_done b s) ! a)) = status (job (heap s ! a)) \<and>
   progress (job (heap (then_done b s) ! a)) = progress (job (heap s ! a))"
  by (auto simp: then_done_def Let_def heap_clearInterval nth_list_update_if
        split: option.splits)

lemma then_info_other:
  "a \<noteq> b \<Longrightarrow> a < length (heap s) \<Longrightarrow>
   status (job (heap (then_info b info s) ! a)) = status (job (heap s ! a)) \<and>
   progress (job (heap (then_info b info s) ! a)) = progress (job (heap s ! a))"
  by (auto simp: then_info_def catch_error_other nth_list_update_if split: sum.splits jsval.splits)

lemma interval_callback_terminal:
  "a < length (heap s) \<Longrightarrow> status (job (heap s ! a)) \<noteq> Processing \<Longrightarrow>
   status (job (heap (interval_callback b r s) ! a)) = status (job (heap s ! a)) \<and>
   progress (job (heap (interval_callback b r s) ! a)) = progress (job (heap s ! a))"
  by (cases "status (job (heap s ! a))")
     (auto simp: interval_callback_def Let_def heap_clearInterval nth_list_update_if
        split: option.splits)

lemma step_terminal:
  assumes "heap_inv s" and "a < length (heap s)" and "status (job (heap s ! a)) \<noteq> Processing"
  shows "status (job (heap (step e s) ! a)) = status (job (heap s ! a)) \<and>
         progress (job (heap (step e s) ! a)) = progress (job (heap s ! a))"
proof -
  from assms have settled: "phase (heap s ! a) = Settled"
    by (simp add: heap_inv_def conv_inv_def)
  show ?thesis
  proof (cases e)
    case (PostConvert url qual now)
    with assms show ?thesis by (simp add: post_convert_nth)
  next
    case (Tick b r)
    with assms show ?thesis by (simp add: interval_callback_terminal)
  next
    case (InfoResolved b info)
    show ?thesis
    proof (cases "b < length (heap s) \<and> phase (heap s ! b) = AwaitInfo")
      case True
      with settled have "a \<noteq> b" by auto
      with True InfoResolved assms(2) show ?thesis by (simp add: then_info_other)
    next
      case False
      with InfoResolved show ?thesis by auto
    qed
  next
    case (AudioResolved b)
    show ?thesis
    proof (cases "b < length (heap s) \<and> phase (heap s ! b) = AwaitAudio")
      case True
      with settled have "a \<noteq> b" by auto
      with True AudioResolved assms(2) show ?thesis by (simp add: then_done_other)
    next
      case False
      with AudioResolved show ?thesis by auto
    qed
  next
    case (Rejected b msg)
    show ?thesis
    proof (cases "b < length (heap s) \<and> phase (heap s ! b) \<noteq> Settled")
      case True
      with settled have "a \<noteq> b" by auto
      with True Rejected assms(2) show ?thesis by (simp add: catch_error_other)
    next
      case False
      with Rejected show ?thesis by auto
    qed
  qed simp_all
qed

section \<open>One pass of the sweeper, entry by entry\<close>

lemma swept_None [simp]: "\<not> swept now None"
  by (simp add: swept_def)

lemma sweep_file_downloads:
  "downloads (fst (sweep_file now x acc)) g =
     (if g = x \<and> swept now (downloads (fst acc) x) then None else downloads (fst acc) g)"
  by (simp add: sweep_file_def swept_def Let_def split: option.splits)

lemma sweep_file_jobs:
  "jobs (fst (sweep_file now x acc)) k =
     (if parse_name x = k \<and> swept now (downloads (fst acc) x) then None else jobs (fst acc) k)"
  by (auto simp: sweep_file_def swept_def Let_def split: option.splits)

lemma fold_sweep_file_downloads:
  "downloads (fst (fold (sweep_file now) files acc)) g =
     (if g \<in> set files \<and> swept now (downloads (fst acc) g) then None
      else downloads (fst acc) g)"
proof (induction files arbitrary: acc)
  case Nil
  show ?case by simp
next
  case (Cons x xs)
  have "downloads (fst (fold (sweep_file now) (x # xs) acc)) g =
      downloads (fst (fold (sweep_file now) xs (sweep_file now x acc))) g" by simp
  also have "\<dots> = (if g \<in> set xs \<and> swept now (downloads (fst (sweep_file now x acc)) g)
      then None else downloads (fst (sweep_file now x acc)) g)"
    by (rule Cons.IH)
  also have "\<dots> = (if g \<in> set (x # xs) \<and> swept now (downloads (fst acc) g) then None
      else downloads (fst acc) g)"
    by (auto simp: sweep_file_downloads)
  finally show ?case .
qed

lemma fold_sweep_file_jobs:
  "jobs (fst (fold (sweep_file now) files acc)) k =
     (if \<exists>f \<in> set files. parse_name f = k \<and> swept now (downloads (fst acc) f) then None
      else jobs (fst acc) k)"
proof (induction files arbitrary: acc)
  case Nil
  show ?case by simp
next
  case (Cons x xs)
  have sw: "swept now (downloads (fst (sweep_file now x acc)) f) =
      (f \<noteq> x \<and> swept now (downloads (fst acc) f))" for f
    by (auto simp: sweep_file_downloads)
  have "jobs (fst (fold (sweep_file now) (x # xs) acc)) k =
      jobs (fst (fold (sweep_file now) xs (sweep_file now x acc))) k" by simp
  also have "\<dots> = (if \<exists>f \<in> set xs. parse_name f = k \<and>
        swept now (downloads (fst (sweep_file now x acc)) f)
      then None else jobs (fst (sweep_file now x acc)) k)"
    by (rule Cons.IH)
  also have "\<dots> = (if \<exists>f \<in> set (x # xs). parse_name f = k \<and> swept now (downloads (fst acc) f)
      then None else jobs (fst acc) k)"
    unfolding sw sweep_file_jobs by (cases "swept now (downloads (fst acc) x)") auto
  finally show ?case .
qed

lemma cleanup_downloads:
  "downloads (cleanup now files s) g =
     (if g \<in> set files \<and> swept now (downloads s g) then None else downloads s g)"
proof -
  have "downloads (cleanup now files s) g =
      downloads (fst (fold (sweep_file now) files
        (console_log ''Running scheduled cleanup...'' s, 0))) g"
    by (simp add: cleanup_def Let_def)
  then show ?thesis
    by (simp only: fold_sweep_file_downloads fst_conv downloads_console_log)
qed

lemma cleanup_jobs:
  "jobs (cleanup now files s) k =
     (if \<exists>f \<in> set files. parse_name f = k \<and> swept now (downloads s f) then None
      else jobs s k)"
proof -
  have "jobs (cleanup now files s) k =
      jobs (fst (fold (sweep_file now) files (console_log ''Running scheduled cleanup...'' s, 0))) k"
    by (simp add: cleanup_def Let_def)
  then show ?thesis
    by (simp only: fold_sweep_file_jobs fst_conv jobs_console_log downloads_console_log)
qed

section \<open>The registry through the events\<close>

text \<open>What the handlers do to the registry.\<close>

lemma catch_error_jobs:
  "jobs (catch_error b msg s) = (jobs s)(id_job (job (heap s ! b)) \<mapsto> b)"
  by (simp add: catch_error_def Let_def split: option.splits)

lemma then_done_jobs:
  "jobs (then_done b s) = (jobs s)(id_job (job (heap s ! b)) \<mapsto> b)"
  by (simp add: then_done_def Let_def)

lemma then_info_jobs:
  "jobs (then_info b info s) = jobs s \<or>
   jobs (then_info b info s) = (jobs s)(id_job (job (heap s ! b)) \<mapsto> b)"
  by (simp add: then_info_def catch_error_jobs split: sum.splits jsval.splits)

lemma interval_callback_jobs:
  "jobs (interval_callback b r s) = jobs s \<or>
   jobs (interval_callback b r s) = (jobs s)(id_job (job (heap s ! b)) \<mapsto> b)"
  by (simp add: interval_callback_def Let_def)

lemma timeout_callback_jobs:
  "jobs (timeout_callback jobId s) = jobs s \<or>
   jobs (timeout_callback jobId s) = (jobs s)(jobId := None)"
  by (simp add: timeout_callback_def Let_def split: option.splits)

lemma post_convert_jobs:
  "jobs (snd (post_convert url qual now s)) = jobs s \<or>
   jobs (snd (post_convert url qual now s)) = (jobs s)(toString now \<mapsto> length (heap s)) \<and>
   heap (snd (post_convert url qual now s)) ! length (heap s) =
     \<lparr>job = \<lparr>id_job = toString now, status = Processing, title = ''Unknown Title'',
              quality = (if truthy qual then qual else JStr ''192''), progress = 5,
              error = None, progressIntervalId = Some (length (heap s))\<rparr>,
      sim_progress = 5, interval_on = True, phase = AwaitInfo\<rparr> \<and>
   length (heap (snd (post_convert url qual now s))) = Suc (length (heap s))"
  using post_convert_cases[of url qual now s]
  by (auto simp: accept_rest accept_heap)

text \<open>Each event binds an id only to an object that carries it, and otherwise keeps or
  removes bindings.\<close>

lemma step_jobs:
  "jobs (step e s) k = Some a \<Longrightarrow>
   jobs s k = Some a \<or>
   (a < length (heap (step e s)) \<and> id_job (job (heap (step e s) ! a)) = k)"
proof (cases e)
  case (PostConvert url qual now)
  assume "jobs (step e s) k = Some a"
  with PostConvert post_convert_jobs[of url qual now s] show ?thesis
    by (auto split: if_splits)
next
  case (GetDownload jobId)
  assume "jobs (step e s) k = Some a"
  with GetDownload show ?thesis by simp
next
  case (TransferEnd n err)
  assume "jobs (step e s) k = Some a"
  with TransferEnd show ?thesis by (simp split: if_splits)
next
  case (TimeoutFired n)
  assume "jobs (step e s) k = Some a"
  with TimeoutFired
    timeout_callback_jobs[of "snd (timeouts s ! n)" "s\<lparr>timeouts := remove_nth n (timeouts s)\<rparr>"]
  show ?thesis by (auto split: if_splits)
next
  case (Tick b r)
  assume "jobs (step e s) k = Some a"
  with Tick interval_callback_jobs[of b r s] show ?thesis by (auto split: if_splits)
next
  case (InfoResolved b info)
  assume "jobs (step e s) k = Some a"
  with InfoResolved then_info_jobs[of b info s] show ?thesis by (auto split: if_splits)
next
  case (AudioResolved b)
  assume "jobs (step e s) k = Some a"
  with AudioResolved show ?thesis by (auto simp: then_done_jobs split: if_splits)
next
  case (Rejected b msg)
  assume "jobs (step e s) k = Some a"
  with Rejected show ?thesis by (auto simp: catch_error_jobs split: if_splits)
next
  case (Cleanup now files)
  assume "jobs (step e s) k = Some a"
  with Cleanup show ?thesis by (simp add: cleanup_jobs split: if_splits)
next
  case (FsWrite name st)
  assume "jobs (step e s) k = Some a"
  with FsWrite show ?thesis by simp
next
  case (FsRemove name)
  assume "jobs (step e s) k = Some a"
  with FsRemove show ?thesis by simp
qed

lemma reg_inv_step:
  assumes "reg_inv s"
  shows "reg_inv (step e s)"
  unfolding reg_inv_def
proof (intro allI impI)
  fix k a
  assume "jobs (step e s) k = Some a"
  then consider "jobs s k = Some a"
    | "a < length (heap (step e s)) \<and> id_job (job (heap (step e s) ! a)) = k"
    using step_jobs by blast
  then show "a < length (heap (step e s)) \<and> id_job (job (heap (step e s) ! a)) = k"
  proof cases
    case 1
    with assms have "a < length (heap s)" and "id_job (job (heap s ! a)) = k"
      by (auto simp: reg_inv_def)
    then show ?thesis using step_length[of s e] step_id[of a s e] by simp
  next
    case 2
    then show ?thesis .
  qed
qed

section \<open>Pending transfers and timeouts\<close>

text \<open>Transfers and timeouts are touched by the download route only.\<close>

lemma catch_error_pending [simp]:
  "transfers (catch_error b msg s) = transfers s"
  "timeouts (catch_error b msg s) = timeouts s"
  by (simp_all add: catch_error_def Let_def split: option.splits)

lemma then_done_pending [simp]:
  "transfers (then_done b s) = transfers s"
  "timeouts (then_done b s) = timeouts s"
  by (simp_all add: then_done_def Let_def)

lemma then_info_pending [simp]:
  "transfers (then_info b info s) = transfers s"
  "timeouts (then_info b info s) = timeouts s"
  by (simp_all add: then_info_def split: sum.splits jsval.splits)

lemma interval_callback_pending [simp]:
  "transfers (interval_callback b r s) = transfers s"
  "timeouts (interval_callback b r s) = timeouts s"
  by (simp_all add: interval_callback_def Let_def)

lemma post_convert_pending [simp]:
  "transfers (snd (post_convert url qual now s)) = transfers s"
  "timeouts (snd (post_convert url qual now s)) = timeouts s"
  using post_convert_cases[of url qual now s] by (auto simp: accept_rest)

lemma set_remove_nth: "set (remove_nth n xs) \<subseteq> set xs"
  unfolding remove_nth_def using set_take_subset[of n xs] set_drop_subset[of "Suc n" xs]
  by auto

lemma get_download_transfers:
  "k \<in> set (transfers (snd (get_download jobId s))) \<Longrightarrow>
   k \<in> set (transfers s) \<or>
   (\<exists>a. jobs s k = Some a \<and> status (job (heap s ! a)) = Completed)"
  by (auto simp: get_download_def Let_def split: option.splits if_splits)

lemma step_pending:
  assumes "k \<in> set (transfers (step e s)) \<union> snd ` set (timeouts (step e s))"
  shows "k \<in> set (transfers s) \<union> snd ` set (timeouts s) \<or>
         (\<exists>a. jobs s k = Some a \<and> status (job (heap s ! a)) = Completed)"
proof (cases e)
  case (GetDownload jobId)
  with assms get_download_transfers[of k jobId s] show ?thesis by auto
next
  case (TransferEnd n err)
  show ?thesis
  proof (cases "n < length (transfers s)")
    case True
    with TransferEnd assms
    have "k \<in> set (remove_nth n (transfers s)) \<or> k \<in> snd ` set (timeouts s) \<or>
          k = transfers s ! n"
      by auto
    with True set_remove_nth[of n "transfers s"] show ?thesis by auto
  next
    case False
    with TransferEnd assms show ?thesis by simp
  qed
next
  case (TimeoutFired n)
  show ?thesis
  proof (cases "n < length (timeouts s)")
    case True
    with TimeoutFired assms
    have "k \<in> set (transfers s) \<or> k \<in> snd ` set (remove_nth n (timeouts s))"
      by auto
    with set_remove_nth[of n "timeouts s"] show ?thesis by auto
  next
    case False
    with TimeoutFired assms show ?thesis by simp
  qed
qed (use assms in \<open>auto split: if_splits\<close>)

lemma completed_persists:
  assumes "heap_inv s" and "b < length (heap s)" and "status (job (heap s ! b)) = Completed"
  shows "b < length (heap (step e s)) \<and>
         id_job (job (heap (step e s) ! b)) = id_job (job (heap s ! b)) \<and>
         status (job (heap (step e s) ! b)) = Completed"
  using assms step_length[of s e] step_id[of b s e] step_terminal[of s b e] by simp

lemma pending_inv_step:
  assumes "heap_inv s" and "reg_inv s" and "pending_inv s"
  shows "pending_inv (step e s)"
  unfolding pending_inv_def
proof
  fix k
  assume "k \<in> set (transfers (step e s)) \<union> snd ` set (timeouts (step e s))"
  then consider "k \<in> set (transfers s) \<union> snd ` set (timeouts s)"
    | a where "jobs s k = Some a" "status (job (heap s ! a)) = Completed"
    using step_pending by blast
  then obtain b where "b < length (heap s)" and "id_job (job (heap s ! b)) = k"
    and "status (job (heap s ! b)) = Completed"
  proof cases
    case 1
    with assms(3) that show ?thesis unfolding pending_inv_def by blast
  next
    case 2
    with assms(2) that show ?thesis unfolding reg_inv_def by blast
  qed
  with completed_persists[OF assms(1), of b e]
  show "\<exists>b<length (heap (step e s)). id_job (job (heap (step e s) ! b)) = k \<and>
          status (job (heap (step e s) ! b)) = Completed"
    by auto
qed

lemma reg_inv_init: "reg_inv init"
  by (simp add: reg_inv_def init_def)

lemma pending_inv_init: "pending_inv init"
  by (simp add: pending_inv_def init_def)

lemma invs_run:
  "heap_inv s \<Longrightarrow> reg_inv s \<Longrightarrow> pending_inv s \<Longrightarrow>
   heap_inv (run es s) \<and> reg_inv (run es s) \<and> pending_inv (run es s)"
  by (induction es arbitrary: s)
     (simp_all add: run_Cons heap_inv_step reg_inv_step pending_inv_step)

section \<open>A failed job through the events\<close>

lemma step_new_object:
  assumes "b < length (heap (step e s))" and "\<not> b < length (heap s)"
  shows "\<exists>url qual now. e = PostConvert url qual now \<and>
           id_job (job (heap (step e s) ! b)) = toString now"
proof (cases e)
  case (PostConvert url qual now)
  with assms post_convert_cases[of url qual now s]
  have "id_job (job (heap (step e s) ! b)) = toString now"
    by (auto simp: accept_heap nth_append less_Suc_eq)
  with PostConvert show ?thesis by simp
qed (use assms in \<open>auto split: if_splits\<close>)

lemma failed_alone_step:
  assumes inv: "heap_inv s" "reg_inv s" "pending_inv s"
    and fa: "failed_alone k a s"
    and q: "quiet k e"
  shows "failed_alone k a (step e s)"
proof -
  from fa have reg: "jobs s k = Some a" and len: "a < length (heap s)"
    and err: "status (job (heap s ! a)) = Error"
    and alone: "\<And>b. b < length (heap s) \<Longrightarrow> b \<noteq> a \<Longrightarrow> id_job (job (heap s ! b)) \<noteq> k"
    by (auto simp: failed_alone_def)
  have not_pending: "k \<notin> set (transfers s) \<union> snd ` set (timeouts s)"
  proof
    assume "k \<in> set (transfers s) \<union> snd ` set (timeouts s)"
    with inv(3) obtain b where b: "b < length (heap s)" "id_job (job (heap s ! b)) = k"
      "status (job (heap s ! b)) = Completed"
      unfolding pending_inv_def by blast
    with alone[of b] have "b = a" by blast
    with b(3) err show False by simp
  qed
  have set_own: "jobs s' k = Some a"
    if "jobs s' = jobs s \<or> jobs s' = (jobs s)(id_job (job (heap s ! b)) \<mapsto> b)"
      and "b < length (heap s)" for s' b
    using that reg alone[of b] by (cases "b = a") auto
  have len': "a < length (heap (step e s))" using len step_length[of s e] by simp
  have err': "status (job (heap (step e s) ! a)) = Error"
    using step_terminal[OF inv(1) len, of e] err by simp
  have alone': "id_job (job (heap (step e s) ! b)) \<noteq> k"
    if "b < length (heap (step e s))" "b \<noteq> a" for b
  proof (cases "b < length (heap s)")
    case True
    with that alone[of b] step_id[of b s e] show ?thesis by simp
  next
    case False
    with that step_new_object[of b e s] q show ?thesis by auto
  qed
  have reg': "jobs (step e s) k = Some a"
  proof (cases e)
    case (PostConvert url qual now)
    with q have "toString now \<noteq> k" by simp
    with PostConvert reg post_convert_jobs[of url qual now s] show ?thesis by auto
  next
    case (GetDownload jobId)
    with reg show ?thesis by simp
  next
    case (TransferEnd n err)
    with reg show ?thesis by simp
  next
    case (TimeoutFired n)
    show ?thesis
    proof (cases "n < length (timeouts s)")
      case True
      then have "snd (timeouts s ! n) \<in> snd ` set (timeouts s)" by simp
      with not_pending have "snd (timeouts s ! n) \<noteq> k" by auto
      with True TimeoutFired reg
        timeout_callback_jobs[of "snd (timeouts s ! n)"
          "s\<lparr>timeouts := remove_nth n (timeouts s)\<rparr>"]
      show ?thesis by auto
    next
      case False
      with TimeoutFired reg show ?thesis by simp
    qed
  next
    case (Tick b r)
    with reg set_own[of "interval_callback b r s" b] interval_callback_jobs[of b r s]
    show ?thesis by auto
  next
    case (InfoResolved b info)
    with reg set_own[of "then_info b info s" b] then_info_jobs[of b info s]
    show ?thesis by auto
  next
    case (AudioResolved b)
    with reg set_own[of "then_done b s" b] then_done_jobs[of b s]
    show ?thesis by auto
  next
    case (Rejected b msg)
    with reg set_own[of "catch_error b msg s" b] catch_error_jobs[of b msg s]
    show ?thesis by auto
  next
    case (Cleanup now files)
    with q reg show ?thesis by (simp add: cleanup_jobs)
  next
    case (FsWrite name st)
    with reg show ?thesis by simp
  next
    case (FsRemove name)
    with reg show ?thesis by simp
  qed
  from reg' len' err' alone' show ?thesis by (simp add: failed_alone_def)
qed

lemma failed_alone_run:
  assumes "heap_inv s" "reg_inv s" "pending_inv s" "failed_alone k a s"
    and "\<forall>e \<in> set es. quiet k e"
  shows "failed_alone k a (run es s)"
  using assms
proof (induction es arbitrary: s)
  case Nil
  then show ?case by simp
next
  case (Cons e es)
  from Cons.prems have "failed_alone k a (step e s)"
    by (simp add: failed_alone_step)
  moreover from Cons.prems have "heap_inv (step e s)" "reg_inv (step e s)"
    "pending_inv (step e s)"
    by (simp_all add: heap_inv_step reg_inv_step pending_inv_step)
  ultimately show ?case using Cons.IH[of "step e s"] Cons.prems(5) by (simp add: run_Cons)
qed

section \<open>Evaluation of concrete runs\<close>

lemmas handler_defs =
  post_convert_def accept_def processConversion_def simulateProgress_def invalid_url_def
  failed_def then_info_def then_done_def catch_error_def interval_callback_def
  get_download_def not_ready_def file_not_found_def download_callback_def
  timeout_callback_def cleanup_def sweep_file_def modify_def console_log_def
  clearInterval_def remove_nth_def toString_def digits.simps digit_char_def cleanTitle_def
  is_word_def is_alnum_def is_space_def parse_name_def Let_def

lemmas demo_defs =
  run_def init_def demo_url_def demo_info_def demo_life_def demo_metadata_def
  demo_slow_metadata_def demo_first_def demo_second_def
  demo_partial_locked_def demo_partial_def demo_ready_def demo_downloaded_def demo_dir_def
  demo_listing_def demo_failed_def demo_later_def demo_shared_id_def

text \<open>The example runs, evaluated.\<close>

lemma run_demo_metadata:
  "run demo_metadata init =
     \<lparr>jobs = [''1000'' \<mapsto> 0],
      heap = [\<lparr>job = \<lparr>id_job = ''1000'', status = Processing, title = ''Song_1'',
                        quality = JStr ''192'', progress = 20, error = None,
                        progressIntervalId = Some 0\<rparr>,
               sim_progress = 5, interval_on = True, phase = AwaitAudio\<rparr>],
      downloads = Map.empty, transfers = [], timeouts = [],
      console = [''Starting conversion for job 1000'']\<rparr>"
  by (simp add: demo_defs handler_defs)

lemma run_demo_life:
  "run demo_life init =
     \<lparr>jobs = [''1000'' \<mapsto> 0],
      heap = [\<lparr>job = \<lparr>id_job = ''1000'', status = Completed, title = ''Song_1'',
                        quality = JStr ''192'', progress = 100, error = None,
                        progressIntervalId = None\<rparr>,
               sim_progress = 15 / 2, interval_on = False, phase = Settled\<rparr>],
      downloads = Map.empty, transfers = [], timeouts = [],
      console = [''Starting conversion for job 1000'', ''Conversion completed for job 1000'']\<rparr>"
  by (simp add: demo_defs handler_defs)

lemma run_demo_partial:
  "run demo_partial init =
     \<lparr>jobs = [''1000'' \<mapsto> 0],
      heap = [\<lparr>job = \<lparr>id_job = ''1000'', status = Processing, title = ''Song_1'',
                        quality = JStr ''192'', progress = 20, error = None,
                        progressIntervalId = Some 0\<rparr>,
               sim_progress = 5, interval_on = True, phase = AwaitAudio\<rparr>],
      downloads = [''1000.mp3'' \<mapsto> \<lparr>mtimeMs = 1500, unlinkable = True\<rparr>],
      transfers = [], timeouts = [],
      console = [''Starting conversion for job 1000'']\<rparr>"
  unfolding demo_partial_def run_snoc run_demo_metadata by simp

lemma run_demo_partial_locked:
  "run demo_partial_locked init =
     \<lparr>jobs = [''1000'' \<mapsto> 0],
      heap = [\<lparr>job = \<lparr>id_job = ''1000'', status = Processing, title = ''Song_1'',
                        quality = JStr ''192'', progress = 20, error = None,
                        progressIntervalId = Some 0\<rparr>,
               sim_progress = 5, interval_on = True, phase = AwaitAudio\<rparr>],
      downloads = [''1000.mp3'' \<mapsto> \<lparr>mtimeMs = 1500, unlinkable = False\<rparr>],
      transfers = [], timeouts = [],
      console = [''Starting conversion for job 1000'']\<rparr>"
  unfolding demo_partial_locked_def run_snoc run_demo_metadata by simp

lemma run_demo_ready:
  "run demo_ready init =
     \<lparr>jobs = [''1000'' \<mapsto> 0],
      heap = [\<lparr>job = \<lparr>id_job = ''1000'', status = Completed, title = ''Song_1'',
                        quality = JStr ''192'', progress = 100, error = None,
                        progressIntervalId = None\<rparr>,
               sim_progress = 15 / 2, interval_on = False, phase = Settled\<rparr>],
      downloads = [''1000.mp3'' \<mapsto> \<lparr>mtimeMs = 2000, unlinkable = True\<rparr>],
      transfers = [], timeouts = [],
      console = [''Starting conversion for job 1000'', ''Conversion completed for job 1000'']\<rparr>"
  unfolding demo_ready_def run_snoc run_demo_life by simp

lemma run_demo_downloaded:
  "run demo_downloaded init =
     \<lparr>jobs = [''1000'' \<mapsto> 0],
      heap = [\<lparr>job = \<lparr>id_job = ''1000'', status = Completed, title = ''Song_1'',
                        quality = JStr ''192'', progress = 100, error = None,
                        progressIntervalId = None\<rparr>,
               sim_progress = 15 / 2, interval_on = False, phase = Settled\<rparr>],
      downloads = [''1000.mp3'' \<mapsto> \<lparr>mtimeMs = 2000, unlinkable = True\<rparr>],
      transfers = [], timeouts = [(30000, ''1000'')],
      console = [''Starting conversion for job 1000'', ''Conversion completed for job 1000'']\<rparr>"
proof -
  have "run demo_downloaded init =
      step (TransferEnd 0 False) (step (GetDownload ''1000'') (run demo_ready init))"
    by (simp add: demo_downloaded_def run_def)
  then show ?thesis
    unfolding run_demo_ready
    by (simp add: get_download_def download_callback_def remove_nth_def Let_def)
qed

lemma run_demo_failed:
  "run demo_failed init =
     \<lparr>jobs = [''1000'' \<mapsto> 0],
      heap = [\<lparr>job = \<lparr>id_job = ''1000'', status = Error, title = ''Unknown Title'',
                        quality = JStr ''192'', progress = 5,
                        error = Some ''HTTP Error 403'', progressIntervalId = None\<rparr>,
               sim_progress = 5, interval_on = False, phase = Settled\<rparr>],
      downloads = Map.empty, transfers = [], timeouts = [],
      console = [''Starting conversion for job 1000'', ''Conversion error:'']\<rparr>"
  by (simp add: demo_defs handler_defs)

section \<open>Progress and status\<close>

text \<open>
  C1 asks that no write lowers the progress of a job. The simulator keeps its own
  counter, which the metadata handler does not move: after the metadata handler has
  stored 20, the next tick stores the floor of that counter, here 7; and a simulator
  that has passed 20 before the metadata arrives, here at 23, is set back to 20 by
  the metadata handler.
\<close>

theorem progress_is_lowered:
  "progress (job (heap (run demo_metadata init) ! 0)) = 20 \<and>
   progress (job (heap (step (Tick 0 (1/2)) (run demo_metadata init)) ! 0)) = 7 \<and>
   progress (job (heap (run demo_slow_metadata init) ! 0)) = 23 \<and>
   progress (job (heap (step (InfoResolved 0 demo_info) (run demo_slow_metadata init)) ! 0)) = 20"
  by (simp add: demo_defs handler_defs)

text \<open>
  C2. In every state the server reaches, for every job object and every event: a job
  whose status is completed or error keeps its status and its progress through the
  event, and also through the callback of its simulator if that were to run; and an
  event that changes the status of a job changes it from processing to completed or to
  error.
\<close>

theorem status_one_directional:
  assumes "a < length (heap (run es init))"
  shows "a < length (heap (step e (run es init))) \<and>
    (status (job (heap (run es init) ! a)) \<noteq> Processing \<longrightarrow>
       status (job (heap (step e (run es init)) ! a)) = status (job (heap (run es init) ! a)) \<and>
       progress (job (heap (step e (run es init)) ! a)) = progress (job (heap (run es init) ! a)) \<and>
       status (job (heap (interval_callback a r (run es init)) ! a)) =
         status (job (heap (run es init) ! a)) \<and>
       progress (job (heap (interval_callback a r (run es init)) ! a)) =
         progress (job (heap (run es init) ! a))) \<and>
    (status (job (heap (step e (run es init)) ! a)) \<noteq> status (job (heap (run es init) ! a)) \<longrightarrow>
       status (job (heap (run es init) ! a)) = Processing \<and>
       (status (job (heap (step e (run es init)) ! a)) = Completed \<or>
        status (job (heap (step e (run es init)) ! a)) = Error))"
proof -
  let ?s = "run es init"
  have inv: "heap_inv ?s" by (simp add: heap_inv_run heap_inv_init)
  have len: "a < length (heap (step e ?s))"
    using assms step_length[of ?s e] by simp
  have stable: "status (job (heap (step e ?s) ! a)) = status (job (heap ?s ! a)) \<and>
      progress (job (heap (step e ?s) ! a)) = progress (job (heap ?s ! a))"
    if "status (job (heap ?s ! a)) \<noteq> Processing"
    using step_terminal[OF inv assms that] .
  have tick: "status (job (heap (interval_callback a r ?s) ! a)) = status (job (heap ?s ! a)) \<and>
      progress (job (heap (interval_callback a r ?s) ! a)) = progress (job (heap ?s ! a))"
    if "status (job (heap ?s ! a)) \<noteq> Processing"
    using interval_callback_terminal[OF assms that] .
  have change: "status (job (heap ?s ! a)) = Processing \<and>
       (status (job (heap (step e ?s) ! a)) = Completed \<or>
        status (job (heap (step e ?s) ! a)) = Error)"
    if "status (job (heap (step e ?s) ! a)) \<noteq> status (job (heap ?s ! a))"
  proof -
    from that stable have p: "status (job (heap ?s ! a)) = Processing" by blast
    with that show ?thesis by (cases "status (job (heap (step e ?s) ! a))") simp_all
  qed
  from len stable tick change show ?thesis by blast
qed

theorem status_one_directional_witness:
  "0 < length (heap (run demo_life init)) \<and>
   status (job (heap (run demo_life init) ! 0)) = Completed \<and>
   status (job (heap (step (Tick 0 (1/2)) (run demo_life init)) ! 0)) = Completed \<and>
   progress (job (heap (step (Tick 0 (1/2)) (run demo_life init)) ! 0)) = 100 \<and>
   progress (job (heap (interval_callback 0 (1/2) (run demo_life init)) ! 0)) = 100 \<and>
   0 < length (heap (run demo_metadata init)) \<and>
   status (job (heap (run demo_metadata init) ! 0)) = Processing \<and>
   status (job (heap (step (Rejected 0 ''timeout'') (run demo_metadata init)) ! 0)) = Error"
  using status_one_directional[of 0 demo_life "Tick 0 (1/2)" "1/2"]
        status_one_directional[of 0 demo_metadata "Rejected 0 ''timeout''" "1/2"]
  by (simp add: run_demo_life run_demo_metadata handler_defs)

text \<open>
  C3. For every job object of every state the server reaches, whatever the requests,
  provider answers, timer callbacks and random numbers were: while the status is
  processing the progress is at most 90, and the progress is 100 exactly when the
  status is completed.
\<close>

theorem progress_bounds_by_status:
  assumes "c \<in> set (heap (run es init))"
  shows "(status (job c) = Processing \<longrightarrow> progress (job c) \<le> 90) \<and>
         (progress (job c) = 100 \<longleftrightarrow> status (job c) = Completed)"
proof -
  have "heap_inv (run es init)" by (simp add: heap_inv_run heap_inv_init)
  moreover from assms obtain a where "a < length (heap (run es init))"
    and "c = heap (run es init) ! a" by (auto simp: in_set_conv_nth)
  ultimately have "conv_inv a c" by (simp add: heap_inv_def)
  then show ?thesis by (auto simp: conv_inv_def split: if_splits)
qed

theorem progress_bounds_by_status_witness:
  "heap (run demo_life init) ! 0 \<in> set (heap (run demo_life init)) \<and>
   status (job (heap (run demo_life init) ! 0)) = Completed \<and>
   progress (job (heap (run demo_life init) ! 0)) = 100"
  using progress_bounds_by_status[of "heap (run demo_life init) ! 0" demo_life]
  by (simp add: run_demo_life)

section \<open>Accepting a request\<close>

lemma accept_state:
  "snd (accept qual now s) =
     s\<lparr>heap := heap s @
          [\<lparr>job = \<lparr>id_job = toString now, status = Processing, title = ''Unknown Title'',
                    quality = (if truthy qual then qual else JStr ''192''), progress = 5,
                    error = None, progressIntervalId = Some (length (heap s))\<rparr>,
            sim_progress = 5, interval_on = True, phase = AwaitInfo\<rparr>],
       jobs := (jobs s)(toString now \<mapsto> length (heap s)),
       console := console s @ [''Starting conversion for job '' @ toString now]\<rparr>"
  by (simp add: accept_def processConversion_def simulateProgress_def Let_def modify_def
        console_log_def)

text \<open>
  C4. A request whose \<open>url\<close> is a string is accepted exactly when the string contains
  \<^verbatim>\<open>youtube.com/\<close> or \<^verbatim>\<open>youtu.be/\<close>. An accepted request answers with the job id and leaves
  a new job in the registry, in processing state, its chain waiting for the metadata:
  the answer is made before any provider call has returned. Every other string, and a
  missing \<open>url\<close>, answers 400 with an error body and leaves the state, the registry
  included, as it was.
\<close>

theorem post_convert_validates_url:
  "post_convert (JStr u) qual now s =
     (if (\<exists>p q. u = p @ ''youtube.com/'' @ q) \<or> (\<exists>p q. u = p @ ''youtu.be/'' @ q)
      then (Json 200 (JObj [(''jobId'', JStr (toString now)),
                            (''title'', JStr ''Processing...'')]),
            s\<lparr>heap := heap s @
                 [\<lparr>job = \<lparr>id_job = toString now, status = Processing,
                           title = ''Unknown Title'',
                           quality = (if truthy qual then qual else JStr ''192''),
                           progress = 5, error = None,
                           progressIntervalId = Some (length (heap s))\<rparr>,
                   sim_progress = 5, interval_on = True, phase = AwaitInfo\<rparr>],
              jobs := (jobs s)(toString now \<mapsto> length (heap s)),
              console := console s @ [''Starting conversion for job '' @ toString now]\<rparr>)
      else (Json 400 (JObj [(''error'', JStr ''Invalid YouTube URL'')]), s)) \<and>
   post_convert JUndefined qual now s =
     (Json 400 (JObj [(''error'', JStr ''Invalid YouTube URL'')]), s)"
proof -
  have acc: "accept qual now s =
      (Json 200 (JObj [(''jobId'', JStr (toString now)), (''title'', JStr ''Processing...'')]),
       snd (accept qual now s))"
    by (simp add: accept_def Let_def)
  have m1: "str_includes u ''youtube.com/'' = (\<exists>p q. u = p @ ''youtube.com/'' @ q)"
    by (rule str_includes_iff)
  have m2: "str_includes u ''youtu.be/'' = (\<exists>p q. u = p @ ''youtu.be/'' @ q)"
    by (rule str_includes_iff)
  have empty: "\<not> str_includes [] ''youtube.com/''" "\<not> str_includes [] ''youtu.be/''"
    by simp_all
  have "post_convert (JStr u) qual now s =
      (if str_includes u ''youtube.com/'' \<or> str_includes u ''youtu.be/''
       then accept qual now s else (invalid_url, s))"
    using empty by (cases "u = []") (auto simp: post_convert_def split: bool.splits)
  then show ?thesis
    unfolding m1 m2 by (subst (asm) acc) (simp add: accept_state invalid_url_def post_convert_def)
qed

theorem post_convert_validates_url_witness:
  "fst (post_convert (JStr ''https://www.youtube.com/watch?v=abc'') JUndefined 1000 init) =
     Json 200 (JObj [(''jobId'', JStr ''1000''), (''title'', JStr ''Processing...'')]) \<and>
   jobs (snd (post_convert (JStr ''https://www.youtube.com/watch?v=abc'') JUndefined 1000 init))
     ''1000'' = Some 0 \<and>
   post_convert (JStr ''https://example.com/video'') JUndefined 1000 init =
     (Json 400 (JObj [(''error'', JStr ''Invalid YouTube URL'')]), init)"
proof -
  have a: "\<exists>p q. ''https://www.youtube.com/watch?v=abc'' = p @ ''youtube.com/'' @ q"
    using str_includes_iff[of "''https://www.youtube.com/watch?v=abc''" "''youtube.com/''"]
    by simp
  have b: "\<not> (\<exists>p q. ''https://example.com/video'' = p @ ''youtube.com/'' @ q)"
    using str_includes_iff[of "''https://example.com/video''" "''youtube.com/''"] by simp
  have c: "\<not> (\<exists>p q. ''https://example.com/video'' = p @ ''youtu.be/'' @ q)"
    using str_includes_iff[of "''https://example.com/video''" "''youtu.be/''"] by simp
  show ?thesis
    using post_convert_validates_url[of "''https://www.youtube.com/watch?v=abc''" JUndefined 1000 init]
      post_convert_validates_url[of "''https://example.com/video''" JUndefined 1000 init] a b c
    by (simp add: init_def toString_def digits.simps digit_char_def)
qed

section \<open>Job identifiers\<close>

lemma post_convert_accepted:
  assumes "fst (post_convert url qual now s) = Json 200 body"
  shows "post_convert url qual now s = accept qual now s"
  using assms
  by (auto simp: post_convert_def invalid_url_def failed_def split: if_splits sum.splits bool.splits)

text \<open>
  C5 as stated fails: the identifier is the clock reading, so two requests accepted at
  the same reading get the same identifier. Both job objects exist, and the registry
  holds the second under that identifier.
\<close>

theorem same_clock_same_id:
  "fst (post_convert demo_url JUndefined 1000 init) =
     Json 200 (JObj [(''jobId'', JStr ''1000''), (''title'', JStr ''Processing...'')]) \<and>
   fst (post_convert demo_url JUndefined 1000 demo_first) =
     Json 200 (JObj [(''jobId'', JStr ''1000''), (''title'', JStr ''Processing...'')]) \<and>
   length (heap demo_second) = 2 \<and>
   id_job (job (heap demo_second ! 0)) = ''1000'' \<and>
   id_job (job (heap demo_second ! 1)) = ''1000'' \<and>
   jobs demo_second ''1000'' = Some 1"
  by (simp add: demo_defs handler_defs)

text \<open>
  C5, amended. Two accepted requests whose clock readings differ get different
  identifiers, whatever the states they are accepted in; and each accepted request
  leaves its identifier bound in the registry to its new job object, which carries that
  identifier.
\<close>

theorem ids_differ_when_clock_differs:
  assumes "fst (post_convert url1 qual1 now1 s1) = Json 200 (JObj [(''jobId'', JStr id1), t1])"
    and "fst (post_convert url2 qual2 now2 s2) = Json 200 (JObj [(''jobId'', JStr id2), t2])"
    and "now1 \<noteq> now2"
  shows "id1 \<noteq> id2 \<and>
         jobs (snd (post_convert url1 qual1 now1 s1)) id1 = Some (length (heap s1)) \<and>
         id_job (job (heap (snd (post_convert url1 qual1 now1 s1)) ! length (heap s1))) = id1 \<and>
         jobs (snd (post_convert url2 qual2 now2 s2)) id2 = Some (length (heap s2)) \<and>
         id_job (job (heap (snd (post_convert url2 qual2 now2 s2)) ! length (heap s2))) = id2"
proof -
  from assms(1) have a1: "post_convert url1 qual1 now1 s1 = accept qual1 now1 s1"
    by (rule post_convert_accepted)
  from assms(2) have a2: "post_convert url2 qual2 now2 s2 = accept qual2 now2 s2"
    by (rule post_convert_accepted)
  from assms(1) a1 have i1: "id1 = toString now1" by (simp add: accept_rest)
  from assms(2) a2 have i2: "id2 = toString now2" by (simp add: accept_rest)
  from assms(3) have "toString now1 \<noteq> toString now2" by (auto dest: toString_inj)
  with i1 i2 a1 a2 show ?thesis by (simp add: accept_rest accept_heap)
qed

theorem ids_differ_when_clock_differs_witness:
  "fst (post_convert demo_url JUndefined 1000 init) =
     Json 200 (JObj [(''jobId'', JStr ''1000''), (''title'', JStr ''Processing...'')]) \<and>
   fst (post_convert demo_url JUndefined 1001 demo_first) =
     Json 200 (JObj [(''jobId'', JStr ''1001''), (''title'', JStr ''Processing...'')]) \<and>
   (1000::int) \<noteq> 1001 \<and> ''1000'' \<noteq> ''1001'' \<and>
   jobs (snd (post_convert demo_url JUndefined 1001 demo_first)) ''1001'' = Some 1"
  using ids_differ_when_clock_differs[of demo_url JUndefined 1000 init "''1000''"
      "(''title'', JStr ''Processing...'')" demo_url JUndefined 1001 demo_first "''1001''"
      "(''title'', JStr ''Processing...'')"]
  by (simp add: demo_defs handler_defs)

section \<open>The metadata handler\<close>

text \<open>
  C6 as stated fails: the title \<^verbatim>\<open>Song_1!\<close> is stored as \<^verbatim>\<open>Song_1\<close>, the underscore being a
  word character of the regular expression, where stripping every non-alphanumeric,
  non-whitespace character gives \<^verbatim>\<open>Song1\<close>; and metadata with an empty title leaves the
  progress at 5.
\<close>

theorem underscore_is_kept:
  "title (job (heap (step (InfoResolved 0 demo_info)
                       (run [PostConvert demo_url JUndefined 1000] init)) ! 0)) = ''Song_1'' \<and>
   spec_strip_title ''Song_1!'' = ''Song1'' \<and>
   progress (job (heap (step (InfoResolved 0 (JObj [(''title'', JStr [])]))
                       (run [PostConvert demo_url JUndefined 1000] init)) ! 0)) = 5"
  by (simp add: demo_defs handler_defs spec_strip_title_def)

text \<open>
  C6, amended. When the metadata call resolves for a job that waits for it and the
  title is a non-empty string, the job's title becomes that string without the
  characters that are neither word characters (letters, digits, underscore) nor
  whitespace, its progress becomes 20 and its status stays processing. When the title
  is missing or empty the job is left as it was.
\<close>

theorem metadata_sets_title:
  assumes "a < length (heap s)" and "phase (heap s ! a) = AwaitInfo"
    and "title_prop info = Inr v"
  shows "(\<forall>t. v = JStr t \<and> t \<noteq> [] \<longrightarrow>
            title (job (heap (step (InfoResolved a info) s) ! a)) =
              filter (\<lambda>c. is_word c \<or> is_space c) t \<and>
            progress (job (heap (step (InfoResolved a info) s) ! a)) = 20 \<and>
            status (job (heap (step (InfoResolved a info) s) ! a)) = Processing) \<and>
         (\<not> truthy v \<longrightarrow>
            job (heap (step (InfoResolved a info) s) ! a) = job (heap s ! a))"
  using assms by (auto simp: then_info_def cleanTitle_def)

theorem metadata_sets_title_witness:
  "(0::nat) < length (heap (run [PostConvert demo_url JUndefined 1000] init)) \<and>
   phase (heap (run [PostConvert demo_url JUndefined 1000] init) ! 0) = AwaitInfo \<and>
   title_prop demo_info = Inr (JStr ''Song_1!'') \<and>
   title (job (heap (step (InfoResolved 0 demo_info)
                       (run [PostConvert demo_url JUndefined 1000] init)) ! 0)) = ''Song_1'' \<and>
   progress (job (heap (step (InfoResolved 0 demo_info)
                       (run [PostConvert demo_url JUndefined 1000] init)) ! 0)) = 20 \<and>
   title_prop (JObj []) = Inr JUndefined \<and> \<not> truthy JUndefined \<and>
   title (job (heap (step (InfoResolved 0 (JObj []))
                       (run [PostConvert demo_url JUndefined 1000] init)) ! 0)) = ''Unknown Title''"
  using metadata_sets_title[of 0 "run [PostConvert demo_url JUndefined 1000] init" demo_info
      "JStr ''Song_1!''"]
    metadata_sets_title[of 0 "run [PostConvert demo_url JUndefined 1000] init" "JObj []"
      JUndefined]
  by (simp add: demo_defs handler_defs)

section \<open>Failure of a provider call\<close>

lemma catch_error_job:
  assumes "a < length (heap s)" and "conv_inv a (heap s ! a)"
  shows "\<not> interval_on (heap (catch_error a msg s) ! a)"
    and "phase (heap (catch_error a msg s) ! a) = Settled"
    and "status (job (heap (catch_error a msg s) ! a)) = Error"
    and "error (job (heap (catch_error a msg s) ! a)) = Some msg"
    and "progressIntervalId (job (heap (catch_error a msg s) ! a)) = None"
    and "progress (job (heap (catch_error a msg s) ! a)) = progress (job (heap s ! a))"
    and "title (job (heap (catch_error a msg s) ! a)) = title (job (heap s ! a))"
    and "quality (job (heap (catch_error a msg s) ! a)) = quality (job (heap s ! a))"
  using assms
  by (auto simp: catch_error_def Let_def conv_inv_def heap_clearInterval nth_list_update_if
        split: option.splits if_splits)

lemma catch_error_downloads:
  "downloads (catch_error a msg s) =
     (case downloads s (id_job (job (heap s ! a)) @ ''.mp3'') of
        None \<Rightarrow> downloads s
      | Some st \<Rightarrow>
          if unlinkable st then (downloads s)(id_job (job (heap s ! a)) @ ''.mp3'' := None)
          else downloads s)"
  by (simp add: catch_error_def Let_def split: option.splits)

lemma catch_error_console:
  "console (catch_error a msg s) =
     (case downloads s (id_job (job (heap s ! a)) @ ''.mp3'') of
        None \<Rightarrow> console s @ [''Conversion error:'']
      | Some st \<Rightarrow>
          if unlinkable st then console s @ [''Conversion error:'']
          else console s @ [''Conversion error:'', ''Error cleaning up failed conversion:''])"
  by (simp add: catch_error_def Let_def split: option.splits)

text \<open>
  C7. When the metadata call or the extraction call of a job is rejected with message
  \<open>msg\<close>, in any state the server reaches: the interval of the simulator is cleared, so
  a later tick changes nothing; the status is error and the error field holds \<open>msg\<close>;
  progress and title are as before. The artifact \<^verbatim>\<open>{jobId}.mp3\<close> is removed when it exists
  and can be unlinked. When unlinking raises, the directory is left as it was, the
  failure is logged, and the job is in the same state as in the other cases.
\<close>

theorem failure_is_recorded_and_cleaned:
  assumes "a < length (heap (run es init))"
    and "phase (heap (run es init) ! a) \<noteq> Settled"
  shows "\<not> interval_on (heap (step (Rejected a msg) (run es init)) ! a) \<and>
    step (Tick a r) (step (Rejected a msg) (run es init)) = step (Rejected a msg) (run es init) \<and>
    status (job (heap (step (Rejected a msg) (run es init)) ! a)) = Error \<and>
    error (job (heap (step (Rejected a msg) (run es init)) ! a)) = Some msg \<and>
    progressIntervalId (job (heap (step (Rejected a msg) (run es init)) ! a)) = None \<and>
    progress (job (heap (step (Rejected a msg) (run es init)) ! a)) =
      progress (job (heap (run es init) ! a)) \<and>
    title (job (heap (step (Rejected a msg) (run es init)) ! a)) =
      title (job (heap (run es init) ! a)) \<and>
    (case downloads (run es init) (id_job (job (heap (run es init) ! a)) @ ''.mp3'') of
       None \<Rightarrow>
         downloads (step (Rejected a msg) (run es init)) = downloads (run es init) \<and>
         console (step (Rejected a msg) (run es init)) =
           console (run es init) @ [''Conversion error:'']
     | Some st \<Rightarrow>
         if unlinkable st then
           downloads (step (Rejected a msg) (run es init)) =
             (downloads (run es init))(id_job (job (heap (run es init) ! a)) @ ''.mp3'' := None) \<and>
           console (step (Rejected a msg) (run es init)) =
             console (run es init) @ [''Conversion error:'']
         else
           downloads (step (Rejected a msg) (run es init)) = downloads (run es init) \<and>
           console (step (Rejected a msg) (run es init)) =
             console (run es init) @
               [''Conversion error:'', ''Error cleaning up failed conversion:''])"
proof -
  let ?s = "run es init"
  have "heap_inv ?s" by (simp add: heap_inv_run heap_inv_init)
  with assms(1) have inv: "conv_inv a (heap ?s ! a)" by (simp add: heap_inv_def)
  have st: "step (Rejected a msg) ?s = catch_error a msg ?s" using assms by simp
  note j = catch_error_job[OF assms(1) inv, of msg]
  have tick: "step (Tick a r) (catch_error a msg ?s) = catch_error a msg ?s"
    using j(1) by simp
  show ?thesis
    unfolding st using j tick
    by (simp add: catch_error_downloads catch_error_console split: option.splits)
qed

theorem failure_is_recorded_and_cleaned_witness:
  "(0::nat) < length (heap (run demo_partial_locked init)) \<and>
   phase (heap (run demo_partial_locked init) ! 0) \<noteq> Settled \<and>
   status (job (heap (step (Rejected 0 ''HTTP Error 403'') (run demo_partial_locked init)) ! 0)) = Error \<and>
   error (job (heap (step (Rejected 0 ''HTTP Error 403'') (run demo_partial_locked init)) ! 0)) =
     Some ''HTTP Error 403'' \<and>
   progress (job (heap (step (Rejected 0 ''HTTP Error 403'') (run demo_partial_locked init)) ! 0)) = 20 \<and>
   downloads (step (Rejected 0 ''HTTP Error 403'') (run demo_partial_locked init)) ''1000.mp3'' =
     Some \<lparr>mtimeMs = 1500, unlinkable = False\<rparr> \<and>
   (0::nat) < length (heap (run demo_partial init)) \<and>
   phase (heap (run demo_partial init) ! 0) \<noteq> Settled \<and>
   status (job (heap (step (Rejected 0 ''HTTP Error 403'') (run demo_partial init)) ! 0)) = Error \<and>
   progress (job (heap (step (Rejected 0 ''HTTP Error 403'') (run demo_partial init)) ! 0)) = 20 \<and>
   downloads (step (Rejected 0 ''HTTP Error 403'') (run demo_partial init)) ''1000.mp3'' = None"
  using failure_is_recorded_and_cleaned[of 0 demo_partial_locked "''HTTP Error 403''" "1/2"]
    failure_is_recorded_and_cleaned[of 0 demo_partial "''HTTP Error 403''" "1/2"]
  by (simp add: run_demo_partial run_demo_partial_locked handler_defs)

section \<open>Downloading\<close>

lemma timeout_callback_effect:
  assumes "downloads s (jobId @ ''.mp3'') = None \<or>
           (\<exists>st. downloads s (jobId @ ''.mp3'') = Some st \<and> unlinkable st)"
  shows "downloads (timeout_callback jobId s) = (downloads s)(jobId @ ''.mp3'' := None)"
    and "jobs (timeout_callback jobId s) = (jobs s)(jobId := None)"
  using assms by (auto simp: timeout_callback_def Let_def console_log_def split: option.splits)

text \<open>
  C8. \<^verbatim>\<open>GET /api/download/:jobId\<close> answers 404 with an error body, and changes nothing,
  when the registry has no job under the id, when the job's status is not completed, or
  when the directory has no entry \<^verbatim>\<open>{jobId}.mp3\<close>. Otherwise it sends that entry under the
  name \<^verbatim>\<open>{title}.mp3\<close> and a transfer starts. When a transfer ends, with an error or
  without, a timeout of 30000 milliseconds is registered for its job id, and nothing is
  deleted yet. When that timeout fires and the artifact is absent or can be unlinked,
  the artifact and the registry entry of the id are gone afterwards.
\<close>

theorem download_contract:
  "((jobs s jobId = None \<or>
     (\<exists>a. jobs s jobId = Some a \<and> status (job (heap s ! a)) \<noteq> Completed) \<or>
     downloads s (jobId @ ''.mp3'') = None) \<longrightarrow>
      (\<exists>m. get_download jobId s = (Json 404 (JObj [(''error'', JStr m)]), s))) \<and>
   (jobs s jobId = Some a \<and> status (job (heap s ! a)) = Completed \<and>
    downloads s (jobId @ ''.mp3'') \<noteq> None \<longrightarrow>
      get_download jobId s =
        (Download (jobId @ ''.mp3'') (title (job (heap s ! a)) @ ''.mp3''),
         s\<lparr>transfers := transfers s @ [jobId]\<rparr>)) \<and>
   (k < length (transfers s) \<longrightarrow>
      timeouts (step (TransferEnd k err) s) = timeouts s @ [(30000, transfers s ! k)] \<and>
      transfers (step (TransferEnd k err) s) = remove_nth k (transfers s) \<and>
      jobs (step (TransferEnd k err) s) = jobs s \<and>
      downloads (step (TransferEnd k err) s) = downloads s) \<and>
   (k < length (timeouts s) \<and> timeouts s ! k = (d, jobId) \<and>
    (downloads s (jobId @ ''.mp3'') = None \<or>
     (\<exists>st. downloads s (jobId @ ''.mp3'') = Some st \<and> unlinkable st)) \<longrightarrow>
      downloads (step (TimeoutFired k) s) = (downloads s)(jobId @ ''.mp3'' := None) \<and>
      jobs (step (TimeoutFired k) s) = (jobs s)(jobId := None))"
proof -
  have rejects: "\<exists>m. get_download jobId s = (Json 404 (JObj [(''error'', JStr m)]), s)"
    if "jobs s jobId = None \<or>
        (\<exists>a. jobs s jobId = Some a \<and> status (job (heap s ! a)) \<noteq> Completed) \<or>
        downloads s (jobId @ ''.mp3'') = None"
    using that
    by (auto simp: get_download_def not_ready_def file_not_found_def Let_def
          split: option.splits)
  have serves: "get_download jobId s =
        (Download (jobId @ ''.mp3'') (title (job (heap s ! a)) @ ''.mp3''),
         s\<lparr>transfers := transfers s @ [jobId]\<rparr>)"
    if "jobs s jobId = Some a \<and> status (job (heap s ! a)) = Completed \<and>
        downloads s (jobId @ ''.mp3'') \<noteq> None"
    using that by (auto simp: get_download_def Let_def)
  have schedules: "timeouts (step (TransferEnd k err) s) = timeouts s @ [(30000, transfers s ! k)] \<and>
      transfers (step (TransferEnd k err) s) = remove_nth k (transfers s) \<and>
      jobs (step (TransferEnd k err) s) = jobs s \<and>
      downloads (step (TransferEnd k err) s) = downloads s"
    if "k < length (transfers s)"
    using that by simp
  have deletes: "downloads (step (TimeoutFired k) s) = (downloads s)(jobId @ ''.mp3'' := None) \<and>
      jobs (step (TimeoutFired k) s) = (jobs s)(jobId := None)"
    if "k < length (timeouts s) \<and> timeouts s ! k = (d, jobId) \<and>
        (downloads s (jobId @ ''.mp3'') = None \<or>
         (\<exists>st. downloads s (jobId @ ''.mp3'') = Some st \<and> unlinkable st))"
    using that
      timeout_callback_effect[of "s\<lparr>timeouts := remove_nth k (timeouts s)\<rparr>" jobId]
    by simp
  from rejects serves schedules deletes show ?thesis by blast
qed

theorem download_contract_witness:
  "get_download ''1000'' (run demo_metadata init) =
     (Json 404 (JObj [(''error'', JStr ''File not ready or not found'')]), run demo_metadata init) \<and>
   fst (get_download ''1000'' (run demo_ready init)) = Download ''1000.mp3'' ''Song_1.mp3'' \<and>
   transfers (step (GetDownload ''1000'') (run demo_ready init)) = [''1000''] \<and>
   timeouts (step (TransferEnd 0 True) (step (GetDownload ''1000'') (run demo_ready init))) =
     [(30000, ''1000'')] \<and>
   timeouts (run demo_downloaded init) = [(30000, ''1000'')] \<and>
   downloads (step (TimeoutFired 0) (run demo_downloaded init)) ''1000.mp3'' = None \<and>
   jobs (step (TimeoutFired 0) (run demo_downloaded init)) ''1000'' = None"
proof -
  have a: "get_download ''1000'' (run demo_metadata init) =
     (Json 404 (JObj [(''error'', JStr ''File not ready or not found'')]), run demo_metadata init)"
    using download_contract[of "run demo_metadata init" "''1000''" 0 0 False 30000]
    by (simp add: run_demo_metadata get_download_def not_ready_def Let_def)
  have b: "fst (get_download ''1000'' (run demo_ready init)) = Download ''1000.mp3'' ''Song_1.mp3''"
    using download_contract[of "run demo_ready init" "''1000''" 0 0 False 30000]
    by (simp add: run_demo_ready)
  have c: "transfers (step (GetDownload ''1000'') (run demo_ready init)) = [''1000'']"
    by (simp add: run_demo_ready get_download_def Let_def)
  have d: "timeouts (step (TransferEnd 0 True) (step (GetDownload ''1000'') (run demo_ready init))) =
     [(30000, ''1000'')]"
    using download_contract[of "step (GetDownload ''1000'') (run demo_ready init)" "''1000''" 0 0
        True 30000] c
    by (simp add: run_demo_ready)
  have e: "downloads (step (TimeoutFired 0) (run demo_downloaded init)) ''1000.mp3'' = None \<and>
     jobs (step (TimeoutFired 0) (run demo_downloaded init)) ''1000'' = None"
    using download_contract[of "run demo_downloaded init" "''1000''" 0 0 False 30000]
    by (simp add: run_demo_downloaded)
  from a b c d e show ?thesis by (simp add: run_demo_downloaded)
qed

section \<open>The retention sweeper\<close>

text \<open>
  C9. One pass of the sweeper at clock reading \<open>now\<close> over the listing \<open>files\<close>: an
  entry of the directory is gone afterwards exactly when it is listed, its age
  \<open>now - mtimeMs\<close> exceeds 3600000 milliseconds and unlinking it does not raise; every
  other entry, a younger one in particular, is as before. A registry entry is gone
  exactly when its id is the name, without extension, of an entry deleted in this
  pass; every other registry entry is as before. Both hold whatever else the listing
  contains: an entry that raises in \<^verbatim>\<open>statSync\<close> or \<^verbatim>\<open>unlinkSync\<close> does not keep the pass
  from deleting the entries listed after it. Job objects are not touched.
\<close>

theorem sweeper_pass:
  "downloads (cleanup now files s) g =
     (if g \<in> set files \<and>
         (\<exists>st. downloads s g = Some st \<and> real_of_int now - mtimeMs st > 3600000 \<and>
               unlinkable st)
      then None else downloads s g) \<and>
   jobs (cleanup now files s) k =
     (if \<exists>f \<in> set files. parse_name f = k \<and>
           (\<exists>st. downloads s f = Some st \<and> real_of_int now - mtimeMs st > 3600000 \<and>
                 unlinkable st)
      then None else jobs s k) \<and>
   heap (cleanup now files s) = heap s"
proof -
  have sw: "swept now (downloads s f) =
      (\<exists>st. downloads s f = Some st \<and> real_of_int now - mtimeMs st > 3600000 \<and> unlinkable st)"
    for f
    by (simp add: swept_def split: option.splits)
  show ?thesis
    using cleanup_downloads[of now files s g] cleanup_jobs[of now files s k]
    unfolding sw by simp
qed

theorem sweeper_pass_witness:
  "downloads (cleanup 4000000 demo_listing demo_dir) ''1000.mp3'' = None \<and>
   jobs (cleanup 4000000 demo_listing demo_dir) ''1000'' = None \<and>
   downloads (cleanup 4000000 demo_listing demo_dir) ''3999000.mp3'' =
     Some \<lparr>mtimeMs = 3999500, unlinkable = True\<rparr> \<and>
   jobs (cleanup 4000000 demo_listing demo_dir) ''3999000'' = Some 1 \<and>
   downloads (cleanup 4000000 demo_listing demo_dir) ''old'' =
     Some \<lparr>mtimeMs = 1, unlinkable = False\<rparr> \<and>
   console (cleanup 4000000 demo_listing demo_dir) =
     [''Running scheduled cleanup...'', ''Error processing file gone.mp3'',
      ''Error processing file old'', ''Cleaned up 1 old files'']"
proof -
  have a: "downloads (cleanup 4000000 demo_listing demo_dir) ''1000.mp3'' = None"
    using sweeper_pass[of 4000000 demo_listing demo_dir "''1000.mp3''" "''1000''"]
    by (simp add: demo_dir_def demo_listing_def)
  have b: "jobs (cleanup 4000000 demo_listing demo_dir) ''1000'' = None"
    using sweeper_pass[of 4000000 demo_listing demo_dir "''1000.mp3''" "''1000''"]
    by (simp add: demo_dir_def demo_listing_def parse_name_def)
  have c: "downloads (cleanup 4000000 demo_listing demo_dir) ''3999000.mp3'' =
     Some \<lparr>mtimeMs = 3999500, unlinkable = True\<rparr>"
    using sweeper_pass[of 4000000 demo_listing demo_dir "''3999000.mp3''" "''3999000''"]
    by (simp add: demo_dir_def demo_listing_def)
  have d: "jobs (cleanup 4000000 demo_listing demo_dir) ''3999000'' = Some 1"
    using sweeper_pass[of 4000000 demo_listing demo_dir "''3999000.mp3''" "''3999000''"]
    by (simp add: demo_dir_def demo_listing_def parse_name_def)
  have e: "downloads (cleanup 4000000 demo_listing demo_dir) ''old'' =
     Some \<lparr>mtimeMs = 1, unlinkable = False\<rparr>"
    using sweeper_pass[of 4000000 demo_listing demo_dir "''old''" "''old''"]
    by (simp add: demo_dir_def demo_listing_def)
  have f: "console (cleanup 4000000 demo_listing demo_dir) =
     [''Running scheduled cleanup...'', ''Error processing file gone.mp3'',
      ''Error processing file old'', ''Cleaned up 1 old files'']"
    by (simp add: demo_dir_def demo_listing_def cleanup_def sweep_file_def console_log_def
          parse_name_def Let_def toString_def digits.simps digit_char_def)
  from a b c d e f show ?thesis by simp
qed

section \<open>A failed job is never collected\<close>

text \<open>
  C10 as stated fails when two jobs share an id. Two requests are accepted at the same
  clock reading; the second job completes and is downloaded, which registers the
  timeout; then the first job fails, which binds the id to the failed job and removes
  the artifact. No entry of the directory is named after the id, and the only
  remaining event is the timeout: it removes the failed job from the registry.
\<close>

theorem shared_id_entry_is_removed:
  "jobs (run demo_shared_id init) ''1000'' = Some 0 \<and>
   status (job (heap (run demo_shared_id init) ! 0)) = Error \<and>
   downloads (run demo_shared_id init) ''1000.mp3'' = None \<and>
   quiet ''1000'' (TimeoutFired 0) \<and>
   jobs (step (TimeoutFired 0) (run demo_shared_id init)) ''1000'' = None"
  by (simp add: demo_defs handler_defs)

text \<open>
  C10, amended. Take a state the server reaches in which the job registered under \<open>k\<close> has
  failed and no other job object carries the id \<open>k\<close>. Then through every sequence of
  later events in which no request is stamped with the same clock reading and no pass
  of the sweeper lists an entry named \<open>k\<close>, the registry keeps \<open>k\<close> bound to that job
  and the job stays in error: ticks, provider answers of other jobs, downloads,
  timeouts and sweeper passes over other entries do not remove it. And in any state, a
  pass of the sweeper removes the registry entry of \<open>k\<close> only together with an entry of
  the directory named \<open>k\<close> that it deletes in the same pass.
\<close>

theorem failed_job_stays_registered:
  assumes "jobs (run es0 init) k = Some a"
    and "status (job (heap (run es0 init) ! a)) = Error"
    and "\<forall>b < length (heap (run es0 init)).
           b \<noteq> a \<longrightarrow> id_job (job (heap (run es0 init) ! b)) \<noteq> k"
    and "\<forall>e \<in> set es. quiet k e"
  shows "jobs (run es (run es0 init)) k = Some a \<and>
         status (job (heap (run es (run es0 init)) ! a)) = Error \<and>
         (jobs s k \<noteq> None \<and> jobs (cleanup now files s) k = None \<longrightarrow>
            (\<exists>f \<in> set files. parse_name f = k \<and> downloads s f \<noteq> None \<and>
                               downloads (cleanup now files s) f = None))"
proof -
  let ?s = "run es0 init"
  have inv: "heap_inv ?s" "reg_inv ?s" "pending_inv ?s"
    using invs_run[of init es0] by (simp_all add: heap_inv_init reg_inv_init pending_inv_init)
  from inv(2) assms(1) have "a < length (heap ?s)" by (auto simp: reg_inv_def)
  with assms(1-3) have fa: "failed_alone k a ?s" by (simp add: failed_alone_def)
  have "failed_alone k a (run es ?s)"
    using inv fa assms(4) by (rule failed_alone_run)
  then have stays: "jobs (run es ?s) k = Some a \<and> status (job (heap (run es ?s) ! a)) = Error"
    by (simp add: failed_alone_def)
  have sweeper: "\<exists>f \<in> set files. parse_name f = k \<and> downloads s f \<noteq> None \<and>
      downloads (cleanup now files s) f = None"
    if "jobs s k \<noteq> None \<and> jobs (cleanup now files s) k = None"
  proof -
    from that obtain f where f: "f \<in> set files" "parse_name f = k" "swept now (downloads s f)"
      by (auto simp: cleanup_jobs split: if_splits)
    then have "downloads s f \<noteq> None" by (auto simp: swept_def split: option.splits)
    moreover from f have "downloads (cleanup now files s) f = None"
      by (simp add: cleanup_downloads)
    ultimately show ?thesis using f by blast
  qed
  from stays sweeper show ?thesis by blast
qed

theorem failed_job_stays_registered_witness:
  "jobs (run demo_failed init) ''1000'' = Some 0 \<and>
   status (job (heap (run demo_failed init) ! 0)) = Error \<and>
   length (heap (run demo_failed init)) = 1 \<and>
   list_all (quiet ''1000'') demo_later \<and>
   jobs (run demo_later (run demo_failed init)) ''1000'' = Some 0 \<and>
   status (job (heap (run demo_later (run demo_failed init)) ! 0)) = Error"
proof -
  have q: "\<forall>e \<in> set demo_later. quiet ''1000'' e"
    by (simp add: demo_later_def toString_def digits.simps digit_char_def parse_name_def)
  have h: "jobs (run demo_failed init) ''1000'' = Some 0 \<and>
     status (job (heap (run demo_failed init) ! 0)) = Error \<and>
     length (heap (run demo_failed init)) = 1"
    by (simp add: run_demo_failed)
  then have u: "\<forall>b < length (heap (run demo_failed init)).
      b \<noteq> 0 \<longrightarrow> id_job (job (heap (run demo_failed init) ! b)) \<noteq> ''1000''"
    by simp
  from h q u failed_job_stays_registered[of demo_failed "''1000''" 0 demo_later]
  show ?thesis by (simp add: list_all_iff)
qed

section \<open>Two more invariants\<close>

text \<open>The progress of a job never exceeds 100, in any state the server reaches.\<close>

theorem progress_never_exceeds_100:
  assumes "c \<in> set (heap (run es init))"
  shows "progress (job c) \<le> 100"
proof -
  have "heap_inv (run es init)" by (simp add: heap_inv_run heap_inv_init)
  moreover from assms obtain a where "a < length (heap (run es init))"
    and "c = heap (run es init) ! a" by (auto simp: in_set_conv_nth)
  ultimately have "conv_inv a c" by (simp add: heap_inv_def)
  then show ?thesis by (auto simp: conv_inv_def split: if_splits)
qed

theorem progress_never_exceeds_100_witness:
  "heap (run demo_life init) ! 0 \<in> set (heap (run demo_life init)) \<and>
   progress (job (heap (run demo_life init) ! 0)) \<le> 100"
  using progress_never_exceeds_100[of "heap (run demo_life init) ! 0" demo_life]
  by (simp add: run_demo_life)

text \<open>The id of a job object never changes, whatever events follow, and the registry
  binds an id only to a job object that carries it.\<close>

lemma run_id_job:
  "a < length (heap s) \<Longrightarrow>
   a < length (heap (run es s)) \<and>
   id_job (job (heap (run es s) ! a)) = id_job (job (heap s ! a))"
proof (induction es arbitrary: s)
  case Nil
  then show ?case by simp
next
  case (Cons e es)
  from Cons.prems have "a < length (heap (step e s))" using step_length[of s e] by simp
  from Cons.IH[OF this] Cons.prems show ?case by (simp add: run_Cons step_id)
qed

theorem job_id_never_changes:
  assumes "a < length (heap (run es init))"
  shows "a < length (heap (run es' (run es init))) \<and>
         id_job (job (heap (run es' (run es init)) ! a)) = id_job (job (heap (run es init) ! a)) \<and>
         (jobs (run es init) k = Some a \<longrightarrow> id_job (job (heap (run es init) ! a)) = k)"
proof -
  have "reg_inv (run es init)"
    using invs_run[of init es] by (simp add: heap_inv_init reg_inv_init pending_inv_init)
  then have "jobs (run es init) k = Some a \<longrightarrow> id_job (job (heap (run es init) ! a)) = k"
    by (simp add: reg_inv_def)
  with run_id_job[OF assms, of es'] show ?thesis by simp
qed

theorem job_id_never_changes_witness:
  "0 < length (heap (run demo_metadata init)) \<and>
   jobs (run demo_metadata init) ''1000'' = Some 0 \<and>
   id_job (job (heap (run demo_metadata init) ! 0)) = ''1000'' \<and>
   id_job (job (heap (run [Tick 0 (1/2), AudioResolved 0] (run demo_metadata init)) ! 0)) = ''1000''"
  using job_id_never_changes[of 0 demo_metadata "[Tick 0 (1/2), AudioResolved 0]" "''1000''"]
  by (simp add: run_demo_metadata)

text \<open>A \<open>url\<close> that is \<^verbatim>\<open>true\<close> or a number other than zero passes \<^verbatim>\<open>!url\<close> and has no
  \<^verbatim>\<open>includes\<close> method: the TypeError is caught, the answer is 500 and no job is
  created.\<close>

theorem url_not_a_string:
  "post_convert (JBool True) qual now s =
     (Json 500 (JObj [(''error'',
        JStr ''Failed to process video: url.includes is not a function'')]),
      s\<lparr>console := console s @ [''Conversion error:'']\<rparr>) \<and>
   post_convert (JNum 5) qual now s =
     (Json 500 (JObj [(''error'',
        JStr ''Failed to process video: url.includes is not a function'')]),
      s\<lparr>console := console s @ [''Conversion error:'']\<rparr>)"
  by (simp add: post_convert_def failed_def console_log_def)

end
